theory Spec2Isabelle
  imports Main "HOL-Library.Sublist" "HOL-Library.AList"
begin

section \<open>Strings: the JavaScript built-ins the sources call\<close>

text \<open>
  \<^verbatim>\<open>String.prototype.replace(pattern, replacement)\<close> with a string pattern: the first
  occurrence of the pattern (if any) is replaced, the rest of the string is kept. The
  replacement string is expanded first: \<^verbatim>\<open>$$\<close> is a dollar sign, \<^verbatim>\<open>$&\<close> the matched text,
  \<^verbatim>\<open>$`\<close> the text before the match and \<^verbatim>\<open>$'\<close> the text after it.
\<close>

fun find_first :: "string \<Rightarrow> string \<Rightarrow> (string \<times> string) option" where
  "find_first pat [] = (if pat = [] then Some ([], []) else None)"
| "find_first pat (c # s) =
     (if prefix pat (c # s) then Some ([], drop (length pat) (c # s))
      else (case find_first pat s of
              None \<Rightarrow> None
            | Some (a, b) \<Rightarrow> Some (c # a, b)))"

fun get_substitution :: "string \<Rightarrow> string \<Rightarrow> string \<Rightarrow> string \<Rightarrow> string" where
  "get_substitution m a b [] = []"
| "get_substitution m a b [c] = [c]"
| "get_substitution m a b (c # d # r) =
     (if c = CHR ''$'' then
        (if d = CHR ''$'' then CHR ''$'' # get_substitution m a b r
         else if d = CHR ''&'' then m @ get_substitution m a b r
         else if d = CHR 0x60 then a @ get_substitution m a b r
         else if d = CHR 0x27 then b @ get_substitution m a b r
         else c # get_substitution m a b (d # r))
      else c # get_substitution m a b (d # r))"

definition replace :: "string \<Rightarrow> string \<Rightarrow> string \<Rightarrow> string" where
  "replace s pat rep =
     (case find_first pat s of
        None \<Rightarrow> s
      | Some (a, b) \<Rightarrow> a @ get_substitution pat a b rep @ b)"

text \<open>
  The decimal rendering of a non-negative integer, as the concatenation of a string and a
  number produces it (for the integers that a number holds exactly).
\<close>

definition digit_char :: "nat \<Rightarrow> char" where
  "digit_char d = char_of (48 + d)"

fun string_of_nat :: "nat \<Rightarrow> string" where
  "string_of_nat n =
     (if n < 10 then [digit_char n] else string_of_nat (n div 10) @ [digit_char (n mod 10)])"

declare string_of_nat.simps [simp del]

section \<open>Relations\<close>

text \<open>
  \<^verbatim>\<open>lib/util/inflection\<close> and lodash are used by the relation sources but are not among
  them; their functions are parameters of the model.
\<close>

record lib =
  singularize :: "string \<Rightarrow> string"
  pluralize :: "string \<Rightarrow> string"
  capitalize :: "string \<Rightarrow> string"
  camelCase :: "string \<Rightarrow> string"
  snakeCase :: "string \<Rightarrow> string"

record model_class =
  cname :: string
  tableName :: string

text \<open>The options object of a relation: each option is absent or a string.\<close>

record options =
  opt_inverse :: "string option"
  opt_primaryKey :: "string option"
  opt_foreignKey :: "string option"

text \<open>
  A relation object: the fields set by \<^verbatim>\<open>BaseRelation#init\<close> and the slots the belongs-to
  configuration mixin fills on demand (\<^verbatim>\<open>undefined\<close> is \<open>None\<close>).
\<close>

record relation =
  rel_name :: string
  modelClass :: model_class
  relatedModel :: model_class
  rel_options :: options
  slot_inverse :: "string option"
  slot_primaryKey :: "string option"
  slot_foreignKey :: "string option"

definition init_relation :: "string \<Rightarrow> model_class \<Rightarrow> model_class \<Rightarrow> options \<Rightarrow> relation" where
  "init_relation name mc related opts =
     \<lparr>rel_name = name, modelClass = mc, relatedModel = related, rel_options = opts,
      slot_inverse = None, slot_primaryKey = None, slot_foreignKey = None\<rparr>"

text \<open>\<^verbatim>\<open>BaseRelation#template\<close>: four chained \<^verbatim>\<open>replace\<close> calls with string patterns.\<close>

definition template :: "lib \<Rightarrow> relation \<Rightarrow> string \<Rightarrow> string" where
  "template L r string =
     (let name = rel_name r;
          singular = singularize L name;
          plural = pluralize L singular;
          singularCapitalized = capitalize L singular;
          pluralCapitalized = capitalize L plural
      in replace (replace (replace (replace string
           ''<singular>'' singular)
           ''<Singular>'' singularCapitalized)
           ''<plural>'' plural)
           ''<Plural>'' pluralCapitalized)"

text \<open>A name without the characters that open a placeholder or a replacement pattern.\<close>

definition plain :: "string \<Rightarrow> bool" where
  "plain s = (CHR ''<'' \<notin> set s \<and> CHR ''$'' \<notin> set s)"

subsection \<open>Belongs-to configuration\<close>

text \<open>
  JavaScript truthiness on the values that occur here: \<^verbatim>\<open>undefined\<close> and the empty string
  are falsy. \<^verbatim>\<open>a || b\<close> is \<open>a\<close> when \<open>a\<close> is truthy and \<open>b\<close> otherwise.
\<close>

definition truthy :: "string option \<Rightarrow> bool" where
  "truthy v = (case v of None \<Rightarrow> False | Some s \<Rightarrow> s \<noteq> [])"

definition js_or :: "string option \<Rightarrow> string option \<Rightarrow> string option" where
  "js_or a b = (if truthy a then a else b)"

text \<open>
  The property getters of the belongs-to configuration mixin. Each returns the value read
  and the relation object, whose slot the getter may have assigned.
\<close>

definition inverse :: "lib \<Rightarrow> relation \<Rightarrow> string option \<times> relation" where
  "inverse L r =
     (let r' = (if \<not> truthy (slot_inverse r) then
                  (let inverse = camelCase L (cname (modelClass r))
                   in r\<lparr>slot_inverse :=
                          js_or (opt_inverse (rel_options r)) (Some (pluralize L inverse))\<rparr>)
                else r)
      in (slot_inverse r', r'))"

definition primaryKey :: "relation \<Rightarrow> string option \<times> relation" where
  "primaryKey r =
     (let r' = (if \<not> truthy (slot_primaryKey r) then
                  r\<lparr>slot_primaryKey := js_or (opt_primaryKey (rel_options r)) (Some ''id'')\<rparr>
                else r)
      in (slot_primaryKey r', r'))"

definition foreignKey :: "lib \<Rightarrow> relation \<Rightarrow> string option \<times> relation" where
  "foreignKey L r =
     (let r' = (if \<not> truthy (slot_foreignKey r) then
                  r\<lparr>slot_foreignKey :=
                      js_or (opt_foreignKey (rel_options r))
                            (Some (snakeCase L (rel_name r @ ''_id'')))\<rparr>
                else r)
      in (slot_foreignKey r', r'))"

section \<open>The MySQL translator\<close>

text \<open>
  Modelled from the spec: the predicate objects of the shared base translator, which is not
  among the sources. A predicate carries the SQL fragment chosen with \<^verbatim>\<open>using\<close> and the
  value transforms chosen with \<^verbatim>\<open>value\<close>; both calls return the predicate for chaining.
\<close>

datatype transform = Named string | ParseWeekdayToInt | Shift

record predicate =
  fragment :: string
  transforms :: "transform list"

definition p_using :: "string \<Rightarrow> predicate \<Rightarrow> predicate" where
  "p_using f p = p\<lparr>fragment := f\<rparr>"

definition p_value :: "transform list \<Rightarrow> predicate \<Rightarrow> predicate" where
  "p_value ts p = p\<lparr>transforms := ts\<rparr>"

text \<open>
  Modelled from the spec: a fragment is rendered by putting the column and the positional
  placeholder in the place of its two \<^verbatim>\<open>%s\<close> marks, in this order.
\<close>

fun format_s :: "string \<Rightarrow> string list \<Rightarrow> string" where
  "format_s [] args = []"
| "format_s [c] args = [c]"
| "format_s (c # d # r) args =
     (if c = CHR ''%'' \<and> d = CHR ''s'' then
        (case args of
           [] \<Rightarrow> c # d # format_s r []
         | x # xs \<Rightarrow> x @ format_s r xs)
      else c # format_s (d # r) args)"

definition render_predicate :: "predicate \<Rightarrow> string \<Rightarrow> string" where
  "render_predicate p col = format_s (fragment p) [col, ''?'']"

datatype predicate_name =
  Exact | IExact | Contains | IContains | Regex | IRegex
| StartsWith | IStartsWith | EndsWith | IEndsWith | Weekday
| OtherPredicate string

text \<open>
  \<^verbatim>\<open>MySQLAdapter.Translator\<close>: the methods \<^verbatim>\<open>predicateFor...\<close> it defines, each building on
  the inherited method (\<open>base\<close>, the call to \<^verbatim>\<open>_super\<close>); a predicate it does not define
  is the inherited one.
\<close>

definition mysql_predicateFor ::
  "(predicate_name \<Rightarrow> 'p \<Rightarrow> predicate) \<Rightarrow> predicate_name \<Rightarrow> 'p \<Rightarrow> predicate" where
  "mysql_predicateFor base n p =
     (case n of
        IExact \<Rightarrow> p_using ''%s LIKE %s'' (base n p)
      | Contains \<Rightarrow>
          p_value [Named ''like'', Named ''contains''] (p_using ''%s LIKE BINARY %s'' (base n p))
      | IContains \<Rightarrow>
          p_value [Named ''like'', Named ''contains''] (p_using ''%s LIKE %s'' (base n p))
      | Regex \<Rightarrow> p_value [Named ''regex''] (p_using ''%s REGEXP BINARY %s'' (base n p))
      | IRegex \<Rightarrow> p_value [Named ''regex''] (p_using ''%s REGEXP %s'' (base n p))
      | StartsWith \<Rightarrow>
          p_value [Named ''like'', Named ''startsWith'']
            (p_using ''%s LIKE BINARY %s'' (base n p))
      | IStartsWith \<Rightarrow>
          p_value [Named ''like'', Named ''startsWith''] (p_using ''%s LIKE %s'' (base n p))
      | EndsWith \<Rightarrow>
          p_value [Named ''like'', Named ''endsWith''] (p_using ''%s LIKE BINARY %s'' (base n p))
      | IEndsWith \<Rightarrow>
          p_value [Named ''like'', Named ''endsWith''] (p_using ''%s LIKE %s'' (base n p))
      | Weekday \<Rightarrow>
          p_value [ParseWeekdayToInt, Shift] (p_using ''WEEKDAY(%s) = %s'' (base n p))
      | _ \<Rightarrow> base n p)"

text \<open>The placeholders that \<^verbatim>\<open>template\<close> knows.\<close>

definition placeholders :: "string set" where
  "placeholders = {''<singular>'', ''<Singular>'', ''<plural>'', ''<Plural>''}"

subsection \<open>Example data\<close>

text \<open>
  The models of the belongs-to tests: an article belongs to a user as its author. The
  library functions are fixed on the few names that the examples use.
\<close>

definition example_lib :: lib where
  "example_lib =
     \<lparr>singularize = (\<lambda>s. s),
      pluralize = (\<lambda>s. s @ ''s''),
      capitalize = (\<lambda>s. if s = ''article'' then ''Article'' else ''Articles''),
      camelCase = (\<lambda>s. if s = ''Article'' then ''article'' else s),
      snakeCase = (\<lambda>s. s)\<rparr>"

definition Article :: model_class where
  "Article = \<lparr>cname = ''Article'', tableName = ''articles''\<rparr>"

definition User :: model_class where
  "User = \<lparr>cname = ''User'', tableName = ''users''\<rparr>"

definition no_options :: options where
  "no_options = \<lparr>opt_inverse = None, opt_primaryKey = None, opt_foreignKey = None\<rparr>"

definition author :: relation where
  "author = init_relation ''author'' Article User no_options"

section \<open>Queries\<close>

text \<open>
  Queries, their deferred results and their joined-relations maps are objects: the store
  holds them in lists, and a reference is an index. An operation that creates an object
  appends it; an assignment to a field of an object replaces the entry at its index.
\<close>

datatype error = Error string | TypeError string

type_synonym ref = nat

record statement =
  sql :: string
  args :: "string list"

record exec_result =
  res_rows :: "string list list"
  res_fields :: "string list"

datatype promise = Pending | Fulfilled exec_result | Rejected error

text \<open>
  The value of \<^verbatim>\<open>relation.joinCondition(baseTable, joinTable)\<close>, which the relation kinds
  build; the model keeps what it is built from (the base table may be \<^verbatim>\<open>undefined\<close>).
\<close>

datatype condition = JoinCondition relation "string option" string

text \<open>
  An argument of \<^verbatim>\<open>join\<close>: a string (a table, an association, a join type), an object
  \<^verbatim>\<open>{table: alias}\<close>, or a condition.
\<close>

datatype arg = Str string | Alias string string | Cond condition

record join_details =
  jd_as :: string
  jd_relation :: relation

type_synonym joined_relations = "(string \<times> join_details) list"

datatype query_class = BaseQuery | ModelQuery

record query =
  identity :: query_class
  q_adapter :: "nat option"
  q_executed :: bool
  q_promise :: ref
  q_model :: "model_class option"
  q_joins :: "arg list list"
  q_joinedRelations :: "ref option"

text \<open>
  The store. \<open>objects\<close> holds the own properties of each map; \<open>prototypes\<close> lists the maps
  whose prototype has been set by an assignment to \<^verbatim>\<open>__proto__\<close>, each with the value
  assigned (the prototype of any other map is \<^verbatim>\<open>Object.prototype\<close>).
\<close>

record heap =
  queries :: "query list"
  promises :: "promise list"
  objects :: "joined_relations list"
  prototypes :: "(ref \<times> join_details) list"
  adapter_calls :: "(nat \<times> ref \<times> statement) list"

text \<open>
  The parts of a model query that are not among the sources are parameters: the rendering
  of its statement (from the fields of the query and the content of its map), the
  creation hook it inherits, and the two helpers of the join mixin, which split an
  association path into the names to join and look a relation up.
\<close>

record 'a env =
  render :: "query \<Rightarrow> joined_relations option \<Rightarrow> error + statement"
  super_create :: "'a \<Rightarrow> query \<Rightarrow> query"
  associationForEach :: "arg \<Rightarrow> error + string list"
  lookupRelation :: "query \<Rightarrow> string \<Rightarrow> error + relation"

definition joined :: "heap \<Rightarrow> ref \<Rightarrow> joined_relations option" where
  "joined h this = map_option (\<lambda>m. objects h ! m) (q_joinedRelations (queries h ! this))"

text \<open>What a query is by itself: its fields and the content of its map.\<close>

definition own_state :: "heap \<Rightarrow> ref \<Rightarrow> query \<times> joined_relations option" where
  "own_state h this = (queries h ! this, joined h this)"

definition wf_heap :: "heap \<Rightarrow> bool" where
  "wf_heap h =
     (\<forall>q \<in> set (queries h).
        q_promise q < length (promises h)
        \<and> (case q_joinedRelations q of None \<Rightarrow> True | Some m \<Rightarrow> m < length (objects h)))"

text \<open>The old store is kept as it is inside the new one; the adapter has not been called.\<close>

definition extends :: "heap \<Rightarrow> heap \<Rightarrow> bool" where
  "extends h h' =
     (prefix (queries h) (queries h') \<and> prefix (promises h) (promises h')
      \<and> prefix (objects h) (objects h') \<and> adapter_calls h' = adapter_calls h)"

subsection \<open>Creation and duplication (\<^verbatim>\<open>lib/query/base.js\<close>)\<close>

definition new_promise :: "heap \<Rightarrow> ref \<times> heap" where
  "new_promise h = (length (promises h), h\<lparr>promises := promises h @ [Pending]\<rparr>)"

text \<open>\<^verbatim>\<open>type.new()\<close>: a new object, initialised by \<^verbatim>\<open>BaseQuery#init\<close>.\<close>

definition new_query :: "query_class \<Rightarrow> nat option \<Rightarrow> heap \<Rightarrow> ref \<times> heap" where
  "new_query type adapter h =
     (let (p, h1) = new_promise h;
          q = \<lparr>identity = type, q_adapter = adapter, q_executed = False, q_promise = p,
               q_model = None, q_joins = [], q_joinedRelations = None\<rparr>
      in (length (queries h1), h1\<lparr>queries := queries h1 @ [q]\<rparr>))"

definition set_query :: "heap \<Rightarrow> ref \<Rightarrow> query \<Rightarrow> heap" where
  "set_query h r q = h\<lparr>queries := (queries h)[r := q]\<rparr>"

text \<open>\<^verbatim>\<open>BaseQuery#_take\<close>, run on the object \<open>this\<close> with the original \<open>orig\<close>.\<close>

definition BaseQuery_take :: "heap \<Rightarrow> ref \<Rightarrow> ref \<Rightarrow> heap" where
  "BaseQuery_take h this orig =
     (let (p, h1) = new_promise h
      in set_query h1 this
           ((queries h1 ! this)\<lparr>q_adapter := q_adapter (queries h1 ! orig),
                                  q_executed := False,
                                  q_promise := p\<rparr>))"

text \<open>
  Modelled from the spec: the \<^verbatim>\<open>_take\<close> of the query types between the base query and the
  model query, which are not among the sources. A new query shares the structural state
  of its parent: the model and the join descriptors. It calls the inherited \<^verbatim>\<open>_take\<close> first.
\<close>

definition structural_take :: "heap \<Rightarrow> ref \<Rightarrow> ref \<Rightarrow> heap" where
  "structural_take h this orig =
     (let h1 = BaseQuery_take h this orig
      in set_query h1 this
           ((queries h1 ! this)\<lparr>q_model := q_model (queries h1 ! orig),
                                  q_joins := q_joins (queries h1 ! orig)\<rparr>))"

text \<open>A new plain object with the given own properties.\<close>

definition new_object :: "heap \<Rightarrow> joined_relations \<Rightarrow> ref \<times> heap" where
  "new_object h es =
     (length (objects h),
      h\<lparr>objects := objects h @ [es],
        prototypes := AList.delete (length (objects h)) (prototypes h)\<rparr>)"

text \<open>
  \<^verbatim>\<open>ModelQuery#_take\<close> (\<^verbatim>\<open>lib/query/model_join.js\<close>): the inherited \<^verbatim>\<open>_take\<close>, then a shallow
  clone of the map of the original: a new plain object with the same own properties
  (and \<^verbatim>\<open>undefined\<close> for \<^verbatim>\<open>undefined\<close>).
\<close>

definition ModelQuery_take :: "heap \<Rightarrow> ref \<Rightarrow> ref \<Rightarrow> heap" where
  "ModelQuery_take h this orig =
     (let h1 = structural_take h this orig
      in case q_joinedRelations (queries h1 ! orig) of
           None \<Rightarrow> set_query h1 this ((queries h1 ! this)\<lparr>q_joinedRelations := None\<rparr>)
         | Some m \<Rightarrow>
             (let (m', h2) = new_object h1 (objects h1 ! m)
              in set_query h2 this ((queries h2 ! this)\<lparr>q_joinedRelations := Some m'\<rparr>)))"

text \<open>The \<^verbatim>\<open>_take\<close> of a class.\<close>

definition take_of :: "query_class \<Rightarrow> heap \<Rightarrow> ref \<Rightarrow> ref \<Rightarrow> heap" where
  "take_of c h this orig =
     (case c of BaseQuery \<Rightarrow> BaseQuery_take h this orig
              | ModelQuery \<Rightarrow> ModelQuery_take h this orig)"

text \<open>
  \<^verbatim>\<open>BaseQuery#_dup\<close>: a new object of the class of \<open>this\<close>, which then takes from \<open>this\<close>.
  No listener is registered for the events that the queries emit.
\<close>

definition dup :: "heap \<Rightarrow> ref \<Rightarrow> ref \<times> heap" where
  "dup h this =
     (let c = identity (queries h ! this);
          (d, h1) = new_query c None h
      in (d, take_of c h1 d this))"

definition clone :: "heap \<Rightarrow> ref \<Rightarrow> ref \<times> heap" where
  "clone h this = dup h this"

text \<open>
  \<^verbatim>\<open>_create\<close>: nothing for the base query; for the model query the inherited hook, then an
  empty map.
\<close>

definition create_of :: "'a env \<Rightarrow> query_class \<Rightarrow> heap \<Rightarrow> ref \<Rightarrow> 'a \<Rightarrow> heap" where
  "create_of E c h this a =
     (case c of
        BaseQuery \<Rightarrow> h
      | ModelQuery \<Rightarrow>
          (let h1 = set_query h this (super_create E a (queries h ! this));
               (m, h2) = new_object h1 []
           in set_query h2 this ((queries h2 ! this)\<lparr>q_joinedRelations := Some m\<rparr>)))"

text \<open>
  \<^verbatim>\<open>BaseQuery#_spawn\<close>: a new object of the given type, the \<^verbatim>\<open>_take\<close> of the class of
  \<open>this\<close>, the \<^verbatim>\<open>_create\<close> of the type. The two classes have the same mixins with an
  \<^verbatim>\<open>init\<close>, so no mixin is initialised here.
\<close>

definition spawn :: "'a env \<Rightarrow> heap \<Rightarrow> ref \<Rightarrow> query_class \<Rightarrow> 'a \<Rightarrow> ref \<times> heap" where
  "spawn E h this type a =
     (let (query, h1) = new_query type None h;
          h2 = take_of (identity (queries h1 ! this)) h1 query this
      in (query, create_of E type h2 query a))"

subsection \<open>Statements and execution (\<^verbatim>\<open>lib/query/base.js\<close>)\<close>

text \<open>
  \<^verbatim>\<open>_statement\<close> throws in the base query; the model query inherits a rendering.
\<close>

definition statement_of :: "'a env \<Rightarrow> heap \<Rightarrow> ref \<Rightarrow> error + statement" where
  "statement_of E h this =
     (case identity (queries h ! this) of
        BaseQuery \<Rightarrow> Inl (Error ''BaseQuery cannot be used directly.'')
      | ModelQuery \<Rightarrow> render E (queries h ! this) (joined h this))"

definition sql_of :: "'a env \<Rightarrow> heap \<Rightarrow> ref \<Rightarrow> error + string" where
  "sql_of E h this =
     (case statement_of E h this of Inl e \<Rightarrow> Inl e | Inr s \<Rightarrow> Inr (sql s))"

definition args_of :: "'a env \<Rightarrow> heap \<Rightarrow> ref \<Rightarrow> error + string list" where
  "args_of E h this =
     (case statement_of E h this of Inl e \<Rightarrow> Inl e | Inr s \<Rightarrow> Inr (args s))"

text \<open>Resolving or rejecting a promise: a promise that is settled stays as it is.\<close>

definition settle_promise :: "heap \<Rightarrow> ref \<Rightarrow> promise \<Rightarrow> heap" where
  "settle_promise h p v =
     (if promises h ! p = Pending then h\<lparr>promises := (promises h)[p := v]\<rparr> else h)"

text \<open>
  The promise that \<^verbatim>\<open>_execute\<close> returns: one that calls the adapter with a statement and
  settles as that call does, or one that is rejected with an error.
\<close>

datatype execution = Calls nat statement | Fails error

text \<open>
  \<^verbatim>\<open>BaseQuery#_execute\<close> reads the statement at once, which may throw (\<open>Inl\<close>); the promise
  it returns calls the adapter on a later tick, and is rejected when the query has no
  adapter.
\<close>

definition BaseQuery_execute :: "'a env \<Rightarrow> heap \<Rightarrow> ref \<Rightarrow> error + execution" where
  "BaseQuery_execute E h this =
     (case statement_of E h this of
        Inl e \<Rightarrow> Inl e
      | Inr s \<Rightarrow>
          Inr (case q_adapter (queries h ! this) of
                 None \<Rightarrow> Fails (TypeError ''undefined adapter'')
               | Some a \<Rightarrow> Calls a s))"

text \<open>
  Modelled from the spec: the \<^verbatim>\<open>_execute\<close> of the transform mixin, which is not among the
  sources. \<^verbatim>\<open>base.js\<close> reopens the base query with this mixin, whose methods override
  those of the base query, so it is the \<^verbatim>\<open>_execute\<close> that \<^verbatim>\<open>execute\<close> calls. It runs the
  inherited \<^verbatim>\<open>_execute\<close> inside a promise: an error thrown there is a rejection of the
  promise it returns, and every failure reaches the one outcome of the query.
\<close>

definition Transform_execute :: "'a env \<Rightarrow> heap \<Rightarrow> ref \<Rightarrow> execution" where
  "Transform_execute E h this =
     (case BaseQuery_execute E h this of Inl e \<Rightarrow> Fails e | Inr x \<Rightarrow> x)"

text \<open>
  What \<^verbatim>\<open>execute\<close> returns: a promise that follows the promise of the query.
\<close>

datatype returned = Follows ref

text \<open>
  \<^verbatim>\<open>BaseQuery#execute\<close>. The first call sets the flag and runs \<^verbatim>\<open>_execute\<close>, whose promise
  resolves or rejects the promise of the query. The model records a call of the adapter
  (adapter, query, statement) and the effect of a rejection at once.
\<close>

definition execute :: "'a env \<Rightarrow> heap \<Rightarrow> ref \<Rightarrow> returned \<times> heap" where
  "execute E h this =
     (let q = queries h ! this in
      if \<not> q_executed q then
        (let h1 = set_query h this (q\<lparr>q_executed := True\<rparr>)
         in case Transform_execute E h1 this of
              Fails e \<Rightarrow> (Follows (q_promise q), settle_promise h1 (q_promise q) (Rejected e))
            | Calls a s \<Rightarrow>
                (Follows (q_promise q),
                 h1\<lparr>adapter_calls := adapter_calls h1 @ [(a, this, s)]\<rparr>))
      else (Follows (q_promise q), h))"

text \<open>The statement that \<^verbatim>\<open>_execute\<close> reads: the one of the query with its flag set.\<close>

definition rendered_on_execute :: "'a env \<Rightarrow> heap \<Rightarrow> ref \<Rightarrow> error + statement" where
  "rendered_on_execute E h this =
     statement_of E (set_query h this ((queries h ! this)\<lparr>q_executed := True\<rparr>)) this"

text \<open>\<^verbatim>\<open>BaseQuery#then\<close> is \<^verbatim>\<open>execute\<close>, with handlers on the promise it returns.\<close>

definition then_of :: "'a env \<Rightarrow> heap \<Rightarrow> ref \<Rightarrow> returned \<times> heap" where
  "then_of E h this = execute E h this"

text \<open>
  The call of the adapter that a query has made settles: the promise of the query is
  resolved or rejected with the outcome.
\<close>

definition settle :: "heap \<Rightarrow> ref \<Rightarrow> error + exec_result \<Rightarrow> heap" where
  "settle h this outcome =
     (if list_ex (\<lambda>(a, r, s). r = this) (adapter_calls h) then
        settle_promise h (q_promise (queries h ! this))
          (case outcome of Inl e \<Rightarrow> Rejected e | Inr r \<Rightarrow> Fulfilled r)
      else h)"

text \<open>What an observer of a returned promise sees.\<close>

definition observed :: "heap \<Rightarrow> returned \<Rightarrow> promise" where
  "observed h r = (case r of Follows p \<Rightarrow> promises h ! p)"

text \<open>
  What happens to a query over time: calls of \<^verbatim>\<open>execute\<close> and of \<^verbatim>\<open>then\<close>, and the call of
  the adapter settling. \<open>run\<close> gives what the calls return, in their order, and the store
  at the end.
\<close>

datatype event = Execute | Then | Settled "error + exec_result"

fun run :: "'a env \<Rightarrow> heap \<Rightarrow> ref \<Rightarrow> event list \<Rightarrow> returned list \<times> heap" where
  "run E h this [] = ([], h)"
| "run E h this (Execute # evs) =
     (let (r, h1) = execute E h this; (rs, h2) = run E h1 this evs in (r # rs, h2))"
| "run E h this (Then # evs) =
     (let (r, h1) = then_of E h this; (rs, h2) = run E h1 this evs in (r # rs, h2))"
| "run E h this (Settled outcome # evs) = run E (settle h this outcome) this evs"

subsection \<open>Joins of associations (\<^verbatim>\<open>lib/query/model_join.js\<close>)\<close>

text \<open>
  \<^verbatim>\<open>_tableInQuery\<close>: the name is the table of the model or the alias of an entry of the
  map. Reading the table of an undefined model is a type error.
\<close>

definition tableInQuery_of :: "model_class \<Rightarrow> joined_relations option \<Rightarrow> string \<Rightarrow> bool" where
  "tableInQuery_of m jr name =
     (name = tableName m
      \<or> (case jr of None \<Rightarrow> False | Some es \<Rightarrow> list_ex (\<lambda>(k, joinDetails). jd_as joinDetails = name) es))"

definition tableInQuery :: "heap \<Rightarrow> ref \<Rightarrow> string \<Rightarrow> error + bool" where
  "tableInQuery h this name =
     (case q_model (queries h ! this) of
        None \<Rightarrow> Inl (TypeError ''undefined model'')
      | Some m \<Rightarrow> Inr (tableInQuery_of m (joined h this) name))"

text \<open>
  \<^verbatim>\<open>_uniqueTableAlias\<close>: the loop tries the name, then the name with \<open>_j1\<close>, \<open>_j2\<close> and so
  on, until one is not in the query. It ends, since the query holds finitely many names.
\<close>

function uniqueTableAlias_loop ::
  "model_class \<Rightarrow> joined_relations option \<Rightarrow> string \<Rightarrow> string \<Rightarrow> nat \<Rightarrow> string" where
  "uniqueTableAlias_loop m jr name alias n =
     (if tableInQuery_of m jr alias
      then uniqueTableAlias_loop m jr name (name @ ''_j'' @ string_of_nat n) (n + 1)
      else alias)"
  by pat_completeness auto
termination
proof -
  have dc_inj: "digit_char a = digit_char b \<Longrightarrow> a = b" if "a < 10" "b < 10" for a b
  proof -
    assume "digit_char a = digit_char b"
    then have "of_char (digit_char a) = (of_char (digit_char b) :: nat)" by simp
    with that show "a = b" by (simp add: digit_char_def)
  qed
  have ne: "string_of_nat k \<noteq> []" for k
    by (subst string_of_nat.simps) simp
  have inj: "string_of_nat a = string_of_nat b \<Longrightarrow> a = b" for a b
  proof (induction a arbitrary: b rule: string_of_nat.induct)
    case (1 a)
    show ?case
    proof (cases "a < 10")
      case True
      then have A: "string_of_nat a = [digit_char a]"
        by (subst string_of_nat.simps) simp
      show ?thesis
      proof (cases "b < 10")
        case b: True
        then have "string_of_nat b = [digit_char b]"
          by (subst string_of_nat.simps) simp
        with A "1.prems" True b show ?thesis by (auto dest: dc_inj)
      next
        case b: False
        then have "string_of_nat b = string_of_nat (b div 10) @ [digit_char (b mod 10)]"
          by (subst string_of_nat.simps) simp
        with A "1.prems" ne [of "b div 10"] show ?thesis by (cases "string_of_nat (b div 10)") auto
      qed
    next
      case False
      then have A: "string_of_nat a = string_of_nat (a div 10) @ [digit_char (a mod 10)]"
        by (subst string_of_nat.simps) simp
      show ?thesis
      proof (cases "b < 10")
        case b: True
        then have "string_of_nat b = [digit_char b]"
          by (subst string_of_nat.simps) simp
        with A "1.prems" ne [of "a div 10"] show ?thesis by (cases "string_of_nat (a div 10)") auto
      next
        case b: False
        then have B: "string_of_nat b = string_of_nat (b div 10) @ [digit_char (b mod 10)]"
          by (subst string_of_nat.simps) simp
        from A B "1.prems" have "string_of_nat (a div 10) = string_of_nat (b div 10)"
          and d: "digit_char (a mod 10) = digit_char (b mod 10)" by auto
        with "1.IH" False have "a div 10 = b div 10" by blast
        moreover from d have "a mod 10 = b mod 10" by (auto dest!: dc_inj [rotated 2])
        ultimately show ?thesis by (metis div_mult_mod_eq)
      qed
    qed
  qed
  let ?names = "\<lambda>m jr. tableName m # (case jr of None \<Rightarrow> [] | Some es \<Rightarrow> map (\<lambda>(k, d). jd_as d) es)"
  let ?cands = "\<lambda>name n. {name @ ''_j'' @ string_of_nat k | k. n \<le> k}"
  let ?M = "\<lambda>(m, jr, name, alias, n).
              card (set (?names m jr) \<inter> ?cands name n) + (if alias \<in> set (?names m jr) then 1 else 0)"
  show ?thesis
  proof (relation "measure ?M")
    show "wf (measure ?M)" by simp
  next
    fix m jr name al n
    assume used: "tableInQuery_of m jr al"
    define U where "U = set (?names m jr)"
    define c where "c = name @ ''_j'' @ string_of_nat n"
    have finU: "finite U" unfolding U_def by (rule finite_set)
    have alias_in: "al \<in> U"
      using used unfolding U_def
      by (auto simp: tableInQuery_of_def list_ex_iff split: option.splits)
    have split: "?cands name n = insert c (?cands name (n + 1))"
    proof -
      have "n \<le> k \<longleftrightarrow> k = n \<or> n + 1 \<le> k" for k by auto
      then show ?thesis unfolding c_def by auto
    qed
    have notin: "c \<notin> ?cands name (n + 1)"
      unfolding c_def by (auto dest!: inj)
    have "card (U \<inter> ?cands name (n + 1)) + (if c \<in> U then 1 else 0)
            \<le> card (U \<inter> ?cands name n)"
    proof (cases "c \<in> U")
      case True
      then have "U \<inter> ?cands name n = insert c (U \<inter> ?cands name (n + 1))"
        unfolding split by blast
      moreover have "c \<notin> U \<inter> ?cands name (n + 1)" using notin by blast
      moreover have "finite (U \<inter> ?cands name (n + 1))" using finU by blast
      ultimately show ?thesis using True by simp
    next
      case False
      then have "U \<inter> ?cands name n = U \<inter> ?cands name (n + 1)"
        unfolding split by blast
      with False show ?thesis by simp
    qed
    with alias_in
    show "((m, jr, name, name @ ''_j'' @ string_of_nat n, n + 1), (m, jr, name, al, n)) \<in> measure ?M"
      unfolding U_def c_def by simp
  qed
qed

declare uniqueTableAlias_loop.simps [simp del]

definition uniqueTableAlias :: "heap \<Rightarrow> ref \<Rightarrow> string \<Rightarrow> error + string" where
  "uniqueTableAlias h this name =
     (case q_model (queries h ! this) of
        None \<Rightarrow> Inl (TypeError ''undefined model'')
      | Some m \<Rightarrow> Inr (uniqueTableAlias_loop m (joined h this) name name 1))"

text \<open>
  Modelled from the spec: the \<^verbatim>\<open>join\<close> of the join mixin, which is not among the sources:
  a duplicate of the query with one join descriptor more, made of the arguments.
\<close>

definition Join_join :: "heap \<Rightarrow> ref \<Rightarrow> arg list \<Rightarrow> ref \<times> heap" where
  "Join_join h this as =
     (let (d, h1) = dup h this
      in (d, set_query h1 d ((queries h1 ! d)\<lparr>q_joins := q_joins (queries h1 ! d) @ [as]\<rparr>)))"

text \<open>
  Reading and writing a property of a map. A read finds an own property, then what the
  prototype gives: the properties that every object inherits, and, for a map whose
  prototype has been set, the prototype itself under \<^verbatim>\<open>__proto__\<close> and its two properties.
  The value read is join details, another truthy value (which has no property \<^verbatim>\<open>as\<close>),
  or a falsy value. A write to \<^verbatim>\<open>__proto__\<close> sets the prototype; any other write sets an
  own property, a new one after those that exist.
\<close>

definition object_prototype_names :: "string list" where
  "object_prototype_names =
     [''constructor'', ''toString'', ''toLocaleString'', ''valueOf'', ''hasOwnProperty'',
      ''isPrototypeOf'', ''propertyIsEnumerable'', ''__proto__'', ''__defineGetter__'',
      ''__defineSetter__'', ''__lookupGetter__'', ''__lookupSetter__'']"

datatype property = Details join_details | Other | Falsy

definition inherited :: "string \<Rightarrow> property" where
  "inherited k = (if k \<in> set object_prototype_names then Other else Falsy)"

definition get_property :: "heap \<Rightarrow> ref \<Rightarrow> string \<Rightarrow> property" where
  "get_property h m k =
     (case map_of (objects h ! m) k of
        Some details \<Rightarrow> Details details
      | None \<Rightarrow>
          (case map_of (prototypes h) m of
             None \<Rightarrow> inherited k
           | Some p \<Rightarrow>
               if k = ''__proto__'' then Details p
               else if k = ''as'' then (if jd_as p = [] then Falsy else Other)
               else if k = ''relation'' then Other
               else inherited k))"

definition set_property :: "heap \<Rightarrow> ref \<Rightarrow> string \<Rightarrow> join_details \<Rightarrow> heap" where
  "set_property h m k v =
     (if k = ''__proto__'' then h\<lparr>prototypes := AList.update m v (prototypes h)\<rparr>
      else h\<lparr>objects := (objects h)[m := AList.update k v (objects h ! m)]\<rparr>)"

text \<open>
  \<^verbatim>\<open>_joinRelation\<close>. Its call of \<^verbatim>\<open>this.join\<close> has three arguments, so it is the inherited
  \<^verbatim>\<open>join\<close> that runs. The base table is the \<^verbatim>\<open>as\<close> of what the map gives for \<open>through\<close>
  when that is truthy. The read of a property of an undefined map, and the assignment to
  the map of the duplicate when the duplicate has no map, are type errors.
\<close>

definition joinRelation ::
  "heap \<Rightarrow> ref \<Rightarrow> string \<Rightarrow> string option \<Rightarrow> relation \<Rightarrow> error + ref \<times> heap" where
  "joinRelation h this name through relation =
     (let baseTable = tableName (modelClass relation);
          joinTable = tableName (relatedModel relation)
      in
      case (if truthy through then
              (case q_joinedRelations (queries h ! this) of
                 None \<Rightarrow> Inl (TypeError ''undefined map'')
               | Some m \<Rightarrow> Inr (get_property h m (the through)))
            else Inr Falsy) of
        Inl e \<Rightarrow> Inl e
      | Inr throughJoinDetails \<Rightarrow>
          (let baseTable = (case throughJoinDetails of
                              Details details \<Rightarrow> Some (jd_as details)
                            | Other \<Rightarrow> None
                            | Falsy \<Rightarrow> Some baseTable)
           in
           case tableInQuery h this joinTable of
             Inl e \<Rightarrow> Inl e
           | Inr used \<Rightarrow>
               (case (if used then
                        (case uniqueTableAlias h this (rel_name relation) of
                           Inl e \<Rightarrow> Inl e
                         | Inr alias \<Rightarrow> Inr (Alias joinTable alias, alias))
                      else Inr (Str joinTable, joinTable)) of
                  Inl e \<Rightarrow> Inl e
                | Inr (joinArg, joinTable) \<Rightarrow>
                    (let condition = JoinCondition relation baseTable joinTable;
                         (d, h1) = Join_join h this [joinArg, Str ''inner'', Cond condition]
                     in
                     case q_joinedRelations (queries h1 ! d) of
                       None \<Rightarrow> Inl (TypeError ''undefined map'')
                     | Some m \<Rightarrow>
                         Inr (d, set_property h1 m name
                                   \<lparr>jd_as = joinTable, jd_relation = relation\<rparr>)))))"

text \<open>
  \<^verbatim>\<open>_joinAssociation\<close>: a duplicate, then one \<^verbatim>\<open>_joinRelation\<close> for each name that
  \<^verbatim>\<open>_associationForEach\<close> gives, each on the result of the one before and through the name
  before; the relation is looked up on \<open>this\<close>.
\<close>

fun join_each ::
  "'a env \<Rightarrow> heap \<Rightarrow> ref \<Rightarrow> string list \<Rightarrow> string option \<Rightarrow> ref \<Rightarrow> error + ref \<times> heap" where
  "join_each E h this [] through d = Inr (d, h)"
| "join_each E h this (assoc # rest) through d =
     (case lookupRelation E (queries h ! this) assoc of
        Inl e \<Rightarrow> Inl e
      | Inr relation \<Rightarrow>
          (case joinRelation h d assoc through relation of
             Inl e \<Rightarrow> Inl e
           | Inr (d', h') \<Rightarrow> join_each E h' this rest (Some assoc) d'))"

definition joinAssociation :: "'a env \<Rightarrow> heap \<Rightarrow> ref \<Rightarrow> arg \<Rightarrow> error + ref \<times> heap" where
  "joinAssociation E h this association =
     (let (d, h1) = dup h this
      in case associationForEach E association of
           Inl e \<Rightarrow> Inl e
         | Inr assocs \<Rightarrow> join_each E h1 this assocs None d)"

text \<open>\<^verbatim>\<open>ModelQuery#join\<close>: the number of arguments decides.\<close>

definition join :: "'a env \<Rightarrow> heap \<Rightarrow> ref \<Rightarrow> arg list \<Rightarrow> error + ref \<times> heap" where
  "join E h this arguments =
     (if length arguments = 1 then joinAssociation E h this (arguments ! 0)
      else Inr (Join_join h this arguments))"

subsection \<open>Example data\<close>

text \<open>
  A second belongs-to relation of the article to a user, a query for articles and a base
  query, and an environment for them: a rendering that lists the joined tables, paths of
  one name, and the two relations of the article.
\<close>

definition editor :: relation where
  "editor = init_relation ''editor'' Article User no_options"

definition render_join :: "arg list \<Rightarrow> string" where
  "render_join as =
     (case as of
        Str t # _ \<Rightarrow> '' JOIN '' @ t
      | Alias t a # _ \<Rightarrow> '' JOIN '' @ t @ '' '' @ a
      | _ \<Rightarrow> [])"

definition example_env :: "unit env" where
  "example_env =
     \<lparr>render = (\<lambda>q jr. Inr \<lparr>sql = ''SELECT * FROM ''
                                   @ (case q_model q of None \<Rightarrow> [] | Some m \<Rightarrow> tableName m)
                                   @ concat (map render_join (q_joins q)),
                              args = []\<rparr>),
      super_create = (\<lambda>a q. q),
      associationForEach =
        (\<lambda>a. case a of Str s \<Rightarrow> Inr [s] | _ \<Rightarrow> Inl (TypeError ''not a string'')),
      lookupRelation =
        (\<lambda>q n. if n = ''author'' then Inr author
                else if n = ''editor'' then Inr editor
                else Inl (Error ''no relation''))\<rparr>"

definition articles_query :: query where
  "articles_query =
     \<lparr>identity = ModelQuery, q_adapter = Some 0, q_executed = False, q_promise = 0,
      q_model = Some Article, q_joins = [], q_joinedRelations = Some 0\<rparr>"

definition base_query :: query where
  "base_query =
     \<lparr>identity = BaseQuery, q_adapter = Some 0, q_executed = False, q_promise = 1,
      q_model = None, q_joins = [], q_joinedRelations = None\<rparr>"

definition example_heap :: heap where
  "example_heap =
     \<lparr>queries = [articles_query, base_query], promises = [Pending, Pending],
      objects = [[]], prototypes = [], adapter_calls = []\<rparr>"

subsection \<open>What a duplicate is made of\<close>

text \<open>The fields of the query that \<^verbatim>\<open>_dup\<close> creates, and the map object it creates if any.\<close>

definition dup_query :: "heap \<Rightarrow> ref \<Rightarrow> query" where
  "dup_query h this =
     (let orig = queries h ! this in
      case identity orig of
        BaseQuery \<Rightarrow>
          \<lparr>identity = BaseQuery, q_adapter = q_adapter orig, q_executed = False,
           q_promise = Suc (length (promises h)), q_model = None, q_joins = [],
           q_joinedRelations = None\<rparr>
      | ModelQuery \<Rightarrow>
          \<lparr>identity = ModelQuery, q_adapter = q_adapter orig, q_executed = False,
           q_promise = Suc (length (promises h)), q_model = q_model orig, q_joins = q_joins orig,
           q_joinedRelations = map_option (\<lambda>m. length (objects h)) (q_joinedRelations orig)\<rparr>)"

definition dup_objects :: "heap \<Rightarrow> ref \<Rightarrow> joined_relations list" where
  "dup_objects h this =
     (case identity (queries h ! this) of
        BaseQuery \<Rightarrow> []
      | ModelQuery \<Rightarrow> (case joined h this of None \<Rightarrow> [] | Some es \<Rightarrow> [es]))"

text \<open>
  An operation on the query \<open>q\<close> has returned a new query and kept \<open>q\<close>: the reference is
  none of the store before, and the state and the statement of \<open>q\<close> are what they were.
\<close>

definition keeps :: "'a env \<Rightarrow> heap \<Rightarrow> ref \<Rightarrow> ref \<times> heap \<Rightarrow> bool" where
  "keeps E h q r =
     (case r of (d, h') \<Rightarrow>
        d \<noteq> q \<and> length (queries h) \<le> d \<and> d < length (queries h')
        \<and> own_state h' q = own_state h q
        \<and> statement_of E h' q = statement_of E h q)"

text \<open>The names that a query uses for tables: the table of its model and its aliases.\<close>

definition names_in_query :: "model_class \<Rightarrow> joined_relations \<Rightarrow> string list" where
  "names_in_query m es = tableName m # map (\<lambda>(k, joinDetails). jd_as joinDetails) es"

text \<open>
  What \<^verbatim>\<open>_joinRelation\<close> computes from the model \<open>m\<close> and the entries \<open>es\<close> of the map of
  the query: the name under which the table is joined and the first argument of the join;
  and the base table of the condition.
\<close>

definition join_alias :: "model_class \<Rightarrow> joined_relations \<Rightarrow> relation \<Rightarrow> string" where
  "join_alias m es rel =
     (if tableInQuery_of m (Some es) (tableName (relatedModel rel))
      then uniqueTableAlias_loop m (Some es) (rel_name rel) (rel_name rel) 1
      else tableName (relatedModel rel))"

definition join_arg :: "model_class \<Rightarrow> joined_relations \<Rightarrow> relation \<Rightarrow> arg" where
  "join_arg m es rel =
     (if tableInQuery_of m (Some es) (tableName (relatedModel rel))
      then Alias (tableName (relatedModel rel)) (join_alias m es rel)
      else Str (tableName (relatedModel rel)))"

definition join_base :: "heap \<Rightarrow> ref \<Rightarrow> string option \<Rightarrow> relation \<Rightarrow> string option" where
  "join_base h q through rel =
     (case (if truthy through
            then (case q_joinedRelations (queries h ! q) of
                    None \<Rightarrow> Falsy
                  | Some m \<Rightarrow> get_property h m (the through))
            else Falsy) of
        Details details \<Rightarrow> Some (jd_as details)
      | Other \<Rightarrow> None
      | Falsy \<Rightarrow> Some (tableName (modelClass rel)))"

text \<open>
  The own properties of a map after an assignment to the property \<open>name\<close>, and the
  prototypes of the store after \<^verbatim>\<open>_dup\<close> and after \<^verbatim>\<open>_joinRelation\<close>.
\<close>

definition joined_after :: "string \<Rightarrow> join_details \<Rightarrow> joined_relations \<Rightarrow> joined_relations" where
  "joined_after name v es = (if name = ''__proto__'' then es else AList.update name v es)"

definition dup_prototypes :: "heap \<Rightarrow> ref \<Rightarrow> (ref \<times> join_details) list" where
  "dup_prototypes h this =
     (if dup_objects h this = [] then prototypes h
      else AList.delete (length (objects h)) (prototypes h))"

definition join_prototypes :: "heap \<Rightarrow> string \<Rightarrow> join_details \<Rightarrow> (ref \<times> join_details) list" where
  "join_prototypes h name v =
     (if name = ''__proto__''
      then AList.update (length (objects h)) v (AList.delete (length (objects h)) (prototypes h))
      else AList.delete (length (objects h)) (prototypes h))"


text \<open>
  The name under which a join descriptor puts its table in the statement, and the names of
  the tables of a query: the table of its model and those of its joins. All the joins of
  a query are recorded when each of these names is the table of the model or an alias of
  the map.
\<close>

definition join_name :: "arg list \<Rightarrow> string option" where
  "join_name as = (case as of Str t # _ \<Rightarrow> Some t | Alias t a # _ \<Rightarrow> Some a | _ \<Rightarrow> None)"

definition table_names :: "model_class \<Rightarrow> arg list list \<Rightarrow> string list" where
  "table_names m js = tableName m # List.map_filter join_name js"

definition all_joins_recorded :: "model_class \<Rightarrow> joined_relations \<Rightarrow> arg list list \<Rightarrow> bool" where
  "all_joins_recorded m es js = (set (table_names m js) \<subseteq> set (names_in_query m es))"


text \<open>
  The query for articles has been executed and its call has settled; then it is cloned.
  Some calls on a query, before and after its call of the adapter settles.
\<close>

definition some_result :: exec_result where
  "some_result = \<lparr>res_rows = [[''448'', ''Journal'']], res_fields = [''id'', ''title'']\<rparr>"

definition settled_heap :: heap where
  "settled_heap = settle (snd (execute example_env example_heap 0)) 0 (Inr some_result)"

definition some_events :: "event list" where
  "some_events =
     [Execute, Then, Settled (Inr some_result), Execute,
      Settled (Inl (Error ''late'')), Then]"

text \<open>
  The association \<open>author\<close> joined once and twice on the query for articles, and the
  association \<open>editor\<close> joined after \<open>author\<close>. The aliases of a query, in the order of its map.
\<close>

definition author_once :: "ref \<times> heap" where
  "author_once = projr (join example_env example_heap 0 [Str ''author''])"


definition author_editor :: "ref \<times> heap" where
  "author_editor = projr (join example_env (snd author_once) (fst author_once) [Str ''editor''])"

definition aliases_of :: "ref \<times> heap \<Rightarrow> string list" where
  "aliases_of r =
     (case joined (snd r) (fst r) of
        None \<Rightarrow> []
      | Some es \<Rightarrow> map (\<lambda>(k, joinDetails). jd_as joinDetails) es)"

definition join_tables_of :: "ref \<times> heap \<Rightarrow> arg list" where
  "join_tables_of r = map (\<lambda>as. as ! 0) (q_joins (queries (snd r) ! fst r))"

definition editor_joined :: "ref \<times> heap" where
  "editor_joined =
     projr (joinRelation (snd author_once) (fst author_once) ''editor'' None editor)"

section \<open>Properties of the string functions\<close>

lemma get_substitution_plain:
  "CHR ''$'' \<notin> set rep \<Longrightarrow> get_substitution m a b rep = rep"
  by (induction m a b rep rule: get_substitution.induct) auto

lemma find_first_skip:
  "pat \<noteq> [] \<Longrightarrow> hd pat \<notin> set a \<Longrightarrow>
   find_first pat (a @ s) = map_option (\<lambda>(x, y). (a @ x, y)) (find_first pat s)"
proof (induction a)
  case Nil
  show ?case by (cases "find_first pat s") auto
next
  case (Cons c a)
  from Cons.prems have np: "\<not> prefix pat (c # a @ s)"
    by (cases pat) auto
  from Cons show ?case using np
    by (cases "find_first pat s") (auto split: option.splits)
qed

lemma find_first_here: "find_first pat (pat @ s) = Some ([], s)"
proof (cases "pat @ s")
  case Nil
  then show ?thesis by simp
next
  case (Cons c t)
  have "prefix pat (c # t)"
    using Cons by (metis prefixI)
  moreover have "drop (length pat) (c # t) = s"
    using Cons by (metis append_eq_conv_conj)
  ultimately show ?thesis
    unfolding Cons by simp
qed

lemma find_first_none:
  "pat \<noteq> [] \<Longrightarrow> hd pat \<notin> set s \<Longrightarrow> find_first pat s = None"
proof (induction s)
  case Nil then show ?case by simp
next
  case (Cons c s)
  then have "\<not> prefix pat (c # s)" by (cases pat) auto
  with Cons show ?case by auto
qed


lemma replace_first_occurrence:
  assumes "pat \<noteq> []" "hd pat \<notin> set a" "CHR ''$'' \<notin> set rep"
  shows "replace (a @ pat @ s) pat rep = a @ rep @ s"
  using assms by (simp add: replace_def find_first_skip find_first_here get_substitution_plain)

lemma replace_absent:
  assumes "find_first pat s = None"
  shows "replace s pat rep = s"
  using assms by (simp add: replace_def)

lemmas ff = find_first_skip find_first_none find_first_here

lemma replace_keep1:
  assumes "CHR ''<'' \<notin> set a" "CHR ''<'' \<notin> set b" "CHR ''<'' \<notin> set c"
    and "P \<in> placeholders" "Q \<in> placeholders" "P \<noteq> Q"
  shows "replace (a @ Q @ b @ Q @ c) P rep = a @ Q @ b @ Q @ c"
  using assms unfolding placeholders_def
  by (intro replace_absent) (auto simp: ff)

lemma replace_keep2:
  assumes "CHR ''<'' \<notin> set a" "CHR ''<'' \<notin> set x" "CHR ''<'' \<notin> set b" "CHR ''<'' \<notin> set c"
    and "P \<in> placeholders" "Q \<in> placeholders" "P \<noteq> Q"
  shows "replace (a @ x @ b @ Q @ c) P rep = a @ x @ b @ Q @ c"
  using assms unfolding placeholders_def
  by (intro replace_absent) (auto simp: ff)

lemma replace_hit:
  assumes "CHR ''<'' \<notin> set a" "CHR ''$'' \<notin> set rep" "Q \<in> placeholders"
  shows "replace (a @ Q @ s) Q rep = a @ rep @ s"
  using assms unfolding placeholders_def
  by (intro replace_first_occurrence) auto

text \<open>
  C10. \<^verbatim>\<open>template\<close> replaces the first occurrence of a placeholder only: in a string that
  holds the same placeholder twice (the text around the occurrences free of \<open><\<close>, the
  inflected names free of \<open><\<close> and \<open>$\<close>), the first occurrence becomes the inflected name
  and the second one stays as it is, for each of the four placeholders.
\<close>

theorem template_first_only:
  assumes a: "CHR ''<'' \<notin> set a" and b: "CHR ''<'' \<notin> set b" and c: "CHR ''<'' \<notin> set c"
    and s: "plain (singularize L (rel_name r))"
    and sC: "plain (capitalize L (singularize L (rel_name r)))"
    and p: "plain (pluralize L (singularize L (rel_name r)))"
    and pC: "plain (capitalize L (pluralize L (singularize L (rel_name r))))"
  shows "template L r (a @ ''<singular>'' @ b @ ''<singular>'' @ c)
           = a @ singularize L (rel_name r) @ b @ ''<singular>'' @ c
       \<and> template L r (a @ ''<Singular>'' @ b @ ''<Singular>'' @ c)
           = a @ capitalize L (singularize L (rel_name r)) @ b @ ''<Singular>'' @ c
       \<and> template L r (a @ ''<plural>'' @ b @ ''<plural>'' @ c)
           = a @ pluralize L (singularize L (rel_name r)) @ b @ ''<plural>'' @ c
       \<and> template L r (a @ ''<Plural>'' @ b @ ''<Plural>'' @ c)
           = a @ capitalize L (pluralize L (singularize L (rel_name r))) @ b @ ''<Plural>'' @ c"
proof -
  define sg where "sg = singularize L (rel_name r)"
  define sgC where "sgC = capitalize L sg"
  define pl where "pl = pluralize L sg"
  define plC where "plC = capitalize L pl"
  have P: "CHR ''<'' \<notin> set sg" "CHR ''<'' \<notin> set sgC" "CHR ''<'' \<notin> set pl" "CHR ''<'' \<notin> set plC"
     "CHR ''$'' \<notin> set sg" "CHR ''$'' \<notin> set sgC" "CHR ''$'' \<notin> set pl" "CHR ''$'' \<notin> set plC"
    using s sC p pC by (simp_all add: plain_def sg_def sgC_def pl_def plC_def)
  have T: "template L r x = replace (replace (replace (replace x
           ''<singular>'' sg) ''<Singular>'' sgC) ''<plural>'' pl) ''<Plural>'' plC" for x
    by (simp add: template_def Let_def sg_def sgC_def pl_def plC_def)
  have M: "''<singular>'' \<in> placeholders" "''<Singular>'' \<in> placeholders"
          "''<plural>'' \<in> placeholders" "''<Plural>'' \<in> placeholders"
    by (simp_all add: placeholders_def)
  note K1 = replace_keep1 [OF a b c]
  note K2 = replace_keep2 [OF a _ b c]
  note H = replace_hit [OF a]
  have 1: "template L r (a @ ''<singular>'' @ b @ ''<singular>'' @ c) = a @ sg @ b @ ''<singular>'' @ c"
  proof -
    have s0: "replace (a @ ''<singular>'' @ b @ ''<singular>'' @ c) ''<singular>'' sg = a @ sg @ b @ ''<singular>'' @ c"
      by (rule H) (simp_all add: P M)
    have s1: "replace (a @ sg @ b @ ''<singular>'' @ c) ''<Singular>'' sgC = a @ sg @ b @ ''<singular>'' @ c"
      by (rule K2) (simp_all add: P M)
    have s2: "replace (a @ sg @ b @ ''<singular>'' @ c) ''<plural>'' pl = a @ sg @ b @ ''<singular>'' @ c"
      by (rule K2) (simp_all add: P M)
    have s3: "replace (a @ sg @ b @ ''<singular>'' @ c) ''<Plural>'' plC = a @ sg @ b @ ''<singular>'' @ c"
      by (rule K2) (simp_all add: P M)
    show ?thesis
      by (simp only: T s0 s1 s2 s3)
  qed
  have 2: "template L r (a @ ''<Singular>'' @ b @ ''<Singular>'' @ c) = a @ sgC @ b @ ''<Singular>'' @ c"
  proof -
    have s0: "replace (a @ ''<Singular>'' @ b @ ''<Singular>'' @ c) ''<singular>'' sg = a @ ''<Singular>'' @ b @ ''<Singular>'' @ c"
      by (rule K1) (simp_all add: M)
    have s1: "replace (a @ ''<Singular>'' @ b @ ''<Singular>'' @ c) ''<Singular>'' sgC = a @ sgC @ b @ ''<Singular>'' @ c"
      by (rule H) (simp_all add: P M)
    have s2: "replace (a @ sgC @ b @ ''<Singular>'' @ c) ''<plural>'' pl = a @ sgC @ b @ ''<Singular>'' @ c"
      by (rule K2) (simp_all add: P M)
    have s3: "replace (a @ sgC @ b @ ''<Singular>'' @ c) ''<Plural>'' plC = a @ sgC @ b @ ''<Singular>'' @ c"
      by (rule K2) (simp_all add: P M)
    show ?thesis
      by (simp only: T s0 s1 s2 s3)
  qed
  have 3: "template L r (a @ ''<plural>'' @ b @ ''<plural>'' @ c) = a @ pl @ b @ ''<plural>'' @ c"
  proof -
    have s0: "replace (a @ ''<plural>'' @ b @ ''<plural>'' @ c) ''<singular>'' sg = a @ ''<plural>'' @ b @ ''<plural>'' @ c"
      by (rule K1) (simp_all add: M)
    have s1: "replace (a @ ''<plural>'' @ b @ ''<plural>'' @ c) ''<Singular>'' sgC = a @ ''<plural>'' @ b @ ''<plural>'' @ c"
      by (rule K1) (simp_all add: M)
    have s2: "replace (a @ ''<plural>'' @ b @ ''<plural>'' @ c) ''<plural>'' pl = a @ pl @ b @ ''<plural>'' @ c"
      by (rule H) (simp_all add: P M)
    have s3: "replace (a @ pl @ b @ ''<plural>'' @ c) ''<Plural>'' plC = a @ pl @ b @ ''<plural>'' @ c"
      by (rule K2) (simp_all add: P M)
    show ?thesis
      by (simp only: T s0 s1 s2 s3)
  qed
  have 4: "template L r (a @ ''<Plural>'' @ b @ ''<Plural>'' @ c) = a @ plC @ b @ ''<Plural>'' @ c"
  proof -
    have s0: "replace (a @ ''<Plural>'' @ b @ ''<Plural>'' @ c) ''<singular>'' sg = a @ ''<Plural>'' @ b @ ''<Plural>'' @ c"
      by (rule K1) (simp_all add: M)
    have s1: "replace (a @ ''<Plural>'' @ b @ ''<Plural>'' @ c) ''<Singular>'' sgC = a @ ''<Plural>'' @ b @ ''<Plural>'' @ c"
      by (rule K1) (simp_all add: M)
    have s2: "replace (a @ ''<Plural>'' @ b @ ''<Plural>'' @ c) ''<plural>'' pl = a @ ''<Plural>'' @ b @ ''<Plural>'' @ c"
      by (rule K1) (simp_all add: M)
    have s3: "replace (a @ ''<Plural>'' @ b @ ''<Plural>'' @ c) ''<Plural>'' plC = a @ plC @ b @ ''<Plural>'' @ c"
      by (rule H) (simp_all add: P M)
    show ?thesis
      by (simp only: T s0 s1 s2 s3)
  qed
  show ?thesis using 1 2 3 4 by (simp add: sg_def sgC_def pl_def plC_def)
qed

theorem template_first_only_witness:
  "template \<lparr>singularize = (\<lambda>s. s), pluralize = (\<lambda>s. s @ ''s''),
             capitalize = (\<lambda>s. if s = ''article'' then ''Article'' else ''Articles''),
             camelCase = (\<lambda>s. s), snakeCase = (\<lambda>s. s)\<rparr>
     (init_relation ''article'' \<lparr>cname = ''Comment'', tableName = ''comments''\<rparr>
        \<lparr>cname = ''Article'', tableName = ''articles''\<rparr>
        \<lparr>opt_inverse = None, opt_primaryKey = None, opt_foreignKey = None\<rparr>)
     ''get<Singular>And<Singular>'' = ''getArticleAnd<Singular>''"
  using template_first_only [of "''get''" "''And''" "''''"
      "\<lparr>singularize = (\<lambda>s. s), pluralize = (\<lambda>s. s @ ''s''),
             capitalize = (\<lambda>s. if s = ''article'' then ''Article'' else ''Articles''),
             camelCase = (\<lambda>s. s), snakeCase = (\<lambda>s. s)\<rparr>"
      "init_relation ''article'' \<lparr>cname = ''Comment'', tableName = ''comments''\<rparr>
        \<lparr>cname = ''Article'', tableName = ''articles''\<rparr>
        \<lparr>opt_inverse = None, opt_primaryKey = None, opt_foreignKey = None\<rparr>"]
  by (simp add: plain_def init_relation_def)

section \<open>Properties of the MySQL translator\<close>


text \<open>
  C9. Under the MySQL translator the predicate \<open>contains\<close> has the fragment
  \<^verbatim>\<open>%s LIKE BINARY %s\<close> and \<open>iContains\<close> the fragment \<^verbatim>\<open>%s LIKE %s\<close>, both with the
  value transforms \<open>like\<close> and \<open>contains\<close>; rendered for a column they read
  \<^verbatim>\<open>col LIKE BINARY ?\<close> and \<^verbatim>\<open>col LIKE ?\<close>. A predicate the translator does not define is
  the one of the base translator.
\<close>

theorem mysql_contains_like_binary:
  "fragment (mysql_predicateFor base Contains p) = ''%s LIKE BINARY %s''
   \<and> transforms (mysql_predicateFor base Contains p) = [Named ''like'', Named ''contains'']
   \<and> render_predicate (mysql_predicateFor base Contains p) col = col @ '' LIKE BINARY ?''
   \<and> fragment (mysql_predicateFor base IContains p) = ''%s LIKE %s''
   \<and> transforms (mysql_predicateFor base IContains p) = [Named ''like'', Named ''contains'']
   \<and> render_predicate (mysql_predicateFor base IContains p) col = col @ '' LIKE ?''
   \<and> mysql_predicateFor base Exact p = base Exact p
   \<and> mysql_predicateFor base (OtherPredicate s) p = base (OtherPredicate s) p"
  by (simp add: mysql_predicateFor_def p_using_def p_value_def render_predicate_def)

theorem mysql_contains_like_binary_witness:
  "render_predicate
     (mysql_predicateFor (\<lambda>n p. \<lparr>fragment = ''%s = %s'', transforms = []\<rparr>) Contains ())
     ''title'' = ''title LIKE BINARY ?''
   \<and> render_predicate
     (mysql_predicateFor (\<lambda>n p. \<lparr>fragment = ''%s = %s'', transforms = []\<rparr>) IContains ())
     ''title'' = ''title LIKE ?''
   \<and> render_predicate
     (mysql_predicateFor (\<lambda>n p. \<lparr>fragment = ''%s = %s'', transforms = []\<rparr>) Exact ())
     ''title'' = ''title = ?''"
  using mysql_contains_like_binary
    [of "\<lambda>n p. \<lparr>fragment = ''%s = %s'', transforms = []\<rparr>" "()" "''title''"]
  by (simp add: render_predicate_def)

section \<open>Properties of the belongs-to configuration\<close>

lemma truthy_js_or: "truthy b \<Longrightarrow> truthy (js_or a b)"
  by (simp add: js_or_def)

lemma js_or_None: "js_or None b = b"
  by (simp add: js_or_def truthy_def)

text \<open>
  C5. A belongs-to relation computes nothing when it is created. With no option given, the
  first access to the foreign key gives the snake-cased relation name with \<open>_id\<close>, to the
  primary key \<open>id\<close>, to the inverse the pluralized camel-cased name of the owning class.
  The value that an access returns is stored, and every later access returns it again,
  whatever the options and the owning class have become in between. The getters test the
  stored value for truthiness, so this holds for the names they store that are not empty;
  the primary key is never empty.
\<close>

theorem belongs_to_lazy_cached:
  "slot_foreignKey (init_relation name mc rm opts) = None
   \<and> slot_primaryKey (init_relation name mc rm opts) = None
   \<and> slot_inverse (init_relation name mc rm opts) = None
   \<and> (rel_options r = \<lparr>opt_inverse = None, opt_primaryKey = None, opt_foreignKey = None\<rparr>
        \<and> slot_foreignKey r = None \<and> slot_primaryKey r = None \<and> slot_inverse r = None \<longrightarrow>
        fst (foreignKey L r) = Some (snakeCase L (rel_name r @ ''_id''))
      \<and> fst (primaryKey r) = Some ''id''
      \<and> fst (inverse L r) = Some (pluralize L (camelCase L (cname (modelClass r)))))
   \<and> (primaryKey r = (v, r') \<longrightarrow>
        primaryKey (r'\<lparr>rel_options := opts', modelClass := mc'\<rparr>)
          = (v, r'\<lparr>rel_options := opts', modelClass := mc'\<rparr>))
   \<and> (foreignKey L r = (v, r') \<and> truthy v \<longrightarrow>
        foreignKey L' (r'\<lparr>rel_options := opts', modelClass := mc'\<rparr>)
          = (v, r'\<lparr>rel_options := opts', modelClass := mc'\<rparr>))
   \<and> (inverse L r = (v, r') \<and> truthy v \<longrightarrow>
        inverse L' (r'\<lparr>rel_options := opts', modelClass := mc'\<rparr>)
          = (v, r'\<lparr>rel_options := opts', modelClass := mc'\<rparr>))"
proof -
  have init: "slot_foreignKey (init_relation name mc rm opts) = None"
    "slot_primaryKey (init_relation name mc rm opts) = None"
    "slot_inverse (init_relation name mc rm opts) = None"
    by (simp_all add: init_relation_def)
  have defaults: "fst (foreignKey L r) = Some (snakeCase L (rel_name r @ ''_id''))
      \<and> fst (primaryKey r) = Some ''id''
      \<and> fst (inverse L r) = Some (pluralize L (camelCase L (cname (modelClass r))))"
    if "rel_options r = \<lparr>opt_inverse = None, opt_primaryKey = None, opt_foreignKey = None\<rparr>"
      "slot_foreignKey r = None" "slot_primaryKey r = None" "slot_inverse r = None"
    using that by (simp add: foreignKey_def primaryKey_def inverse_def Let_def js_or_None truthy_def)
  have pk: "primaryKey (r'\<lparr>rel_options := opts', modelClass := mc'\<rparr>)
          = (v, r'\<lparr>rel_options := opts', modelClass := mc'\<rparr>)" if "primaryKey r = (v, r')"
  proof -
    have "truthy (slot_primaryKey r') \<and> v = slot_primaryKey r'"
      using that by (auto simp: primaryKey_def Let_def js_or_def truthy_def split: if_splits)
    then show ?thesis by (simp add: primaryKey_def Let_def)
  qed
  have fk: "foreignKey L' (r'\<lparr>rel_options := opts', modelClass := mc'\<rparr>)
          = (v, r'\<lparr>rel_options := opts', modelClass := mc'\<rparr>)"
    if "foreignKey L r = (v, r')" "truthy v"
  proof -
    have "v = slot_foreignKey r'"
      using that by (auto simp: foreignKey_def Let_def split: if_splits)
    with that(2) show ?thesis by (simp add: foreignKey_def Let_def)
  qed
  have inv: "inverse L' (r'\<lparr>rel_options := opts', modelClass := mc'\<rparr>)
          = (v, r'\<lparr>rel_options := opts', modelClass := mc'\<rparr>)"
    if "inverse L r = (v, r')" "truthy v"
  proof -
    have "v = slot_inverse r'"
      using that by (auto simp: inverse_def Let_def split: if_splits)
    with that(2) show ?thesis by (simp add: inverse_def Let_def)
  qed
  show ?thesis
    using init defaults pk fk inv by blast
qed

theorem belongs_to_lazy_cached_witness:
  "fst (foreignKey example_lib author) = Some ''author_id''
   \<and> fst (primaryKey author) = Some ''id''
   \<and> fst (inverse example_lib author) = Some ''articles''
   \<and> fst (foreignKey example_lib
        (snd (foreignKey example_lib author)
           \<lparr>rel_options := no_options\<lparr>opt_foreignKey := Some ''writer_id''\<rparr>, modelClass := User\<rparr>))
       = Some ''author_id''
   \<and> fst (primaryKey
        (snd (primaryKey author)
           \<lparr>rel_options := no_options\<lparr>opt_primaryKey := Some ''pk''\<rparr>, modelClass := User\<rparr>))
       = Some ''id''
   \<and> fst (inverse example_lib
        (snd (inverse example_lib author)
           \<lparr>rel_options := no_options\<lparr>opt_inverse := Some ''posts''\<rparr>, modelClass := User\<rparr>))
       = Some ''articles''"
  using
    belongs_to_lazy_cached [where r = author and L = example_lib and L' = example_lib
      and v = "Some ''author_id''" and r' = "snd (foreignKey example_lib author)"
      and opts' = "no_options\<lparr>opt_foreignKey := Some ''writer_id''\<rparr>" and mc' = User]
    belongs_to_lazy_cached [where r = author and L = example_lib and L' = example_lib
      and v = "Some ''id''" and r' = "snd (primaryKey author)"
      and opts' = "no_options\<lparr>opt_primaryKey := Some ''pk''\<rparr>" and mc' = User]
    belongs_to_lazy_cached [where r = author and L = example_lib and L' = example_lib
      and v = "Some ''articles''" and r' = "snd (inverse example_lib author)"
      and opts' = "no_options\<lparr>opt_inverse := Some ''posts''\<rparr>" and mc' = User]
  by (simp add: example_lib_def Article_def User_def no_options_def author_def
        init_relation_def foreignKey_def primaryKey_def inverse_def Let_def js_or_def truthy_def)

section \<open>Duplication keeps the store\<close>

lemma dup_eq:
  assumes "this < length (queries h)"
  shows "dup h this =
      (length (queries h),
       h\<lparr>queries := queries h @ [dup_query h this],
         promises := promises h @ [Pending, Pending],
         objects := objects h @ dup_objects h this,
         prototypes := dup_prototypes h this\<rparr>)"
proof (cases "identity (queries h ! this)")
  case BaseQuery
  then show ?thesis using assms
    by (simp add: dup_def new_query_def new_promise_def take_of_def BaseQuery_take_def
        set_query_def dup_query_def dup_objects_def dup_prototypes_def new_object_def
        Let_def nth_append)
next
  case ModelQuery
  then show ?thesis using assms
    by (cases "q_joinedRelations (queries h ! this)")
       (simp_all add: dup_def new_query_def new_promise_def take_of_def ModelQuery_take_def
        structural_take_def BaseQuery_take_def joined_def
        set_query_def dup_query_def dup_objects_def dup_prototypes_def new_object_def
        Let_def nth_append)
qed

lemma extends_refl: "extends h h"
  by (simp add: extends_def)

lemma extends_trans: "extends h1 h2 \<Longrightarrow> extends h2 h3 \<Longrightarrow> extends h1 h3"
  unfolding extends_def by (metis prefix_order.trans)

lemma extends_length: "extends h h' \<Longrightarrow> length (queries h) \<le> length (queries h')"
  by (simp add: extends_def prefix_length_le)

lemma extends_query:
  "extends h h' \<Longrightarrow> q < length (queries h) \<Longrightarrow> queries h' ! q = queries h ! q"
  unfolding extends_def prefix_def by (auto simp: nth_append)

lemma wf_heap_query:
  "wf_heap h \<Longrightarrow> q < length (queries h) \<Longrightarrow> q_joinedRelations (queries h ! q) = Some m
   \<Longrightarrow> m < length (objects h)"
  unfolding wf_heap_def by (force dest: nth_mem [of q "queries h"])

lemma extends_joined:
  assumes "extends h h'" "wf_heap h" "q < length (queries h)"
  shows "joined h' q = joined h q"
proof (cases "q_joinedRelations (queries h ! q)")
  case None
  with assms show ?thesis by (simp add: joined_def extends_query)
next
  case (Some m)
  with assms have "m < length (objects h)" by (simp add: wf_heap_query)
  moreover from assms have "prefix (objects h) (objects h')" by (simp add: extends_def)
  ultimately have "objects h' ! m = objects h ! m"
    by (auto simp: prefix_def nth_append)
  with Some assms show ?thesis by (simp add: joined_def extends_query)
qed

lemma extends_own_state:
  assumes "extends h h'" "wf_heap h" "q < length (queries h)"
  shows "own_state h' q = own_state h q"
  using assms by (simp add: own_state_def extends_query extends_joined)

lemma extends_statement:
  assumes "extends h h'" "wf_heap h" "q < length (queries h)"
  shows "statement_of E h' q = statement_of E h q"
  using assms by (simp add: statement_of_def extends_query extends_joined split: query_class.splits)

lemma extends_keeps:
  assumes "extends h h'" "wf_heap h" "q < length (queries h)"
    and "length (queries h) \<le> d" "d < length (queries h')"
  shows "keeps E h q (d, h')"
  using assms by (simp add: keeps_def extends_own_state extends_statement)

lemma dup_query_bounds:
  "q_promise (dup_query h this) = Suc (length (promises h))"
  "q_joinedRelations (dup_query h this) = Some m \<Longrightarrow>
     m = length (objects h) \<and> dup_objects h this \<noteq> []"
  by (auto simp: dup_query_def dup_objects_def joined_def Let_def split: query_class.splits)

lemma dup_extends:
  assumes "this < length (queries h)" "dup h this = (d, h')"
  shows "extends h h'" "d = length (queries h)" "length (queries h') = Suc (length (queries h))"
  using assms by (auto simp: dup_eq extends_def)

lemma dup_wf:
  assumes "wf_heap h" "this < length (queries h)" "dup h this = (d, h')"
  shows "wf_heap h'"
proof -
  have h': "h' = h\<lparr>queries := queries h @ [dup_query h this],
         promises := promises h @ [Pending, Pending],
         objects := objects h @ dup_objects h this,
         prototypes := dup_prototypes h this\<rparr>"
    using assms by (simp add: dup_eq)
  have old: "q_promise q < length (promises h')
      \<and> (case q_joinedRelations q of None \<Rightarrow> True | Some m \<Rightarrow> m < length (objects h'))"
    if "q \<in> set (queries h)" for q
    using that assms(1) unfolding wf_heap_def h' by (auto split: option.splits)
  have new: "q_promise (dup_query h this) < length (promises h')
      \<and> (case q_joinedRelations (dup_query h this) of None \<Rightarrow> True
          | Some m \<Rightarrow> m < length (objects h'))"
    using dup_query_bounds [of h this] unfolding h' by (auto split: option.splits)
  show ?thesis
    unfolding wf_heap_def using old new by (auto simp: h')
qed

lemma Join_join_eq:
  assumes "this < length (queries h)"
  shows "Join_join h this as =
      (length (queries h),
       h\<lparr>queries := queries h @ [(dup_query h this)\<lparr>q_joins := q_joins (dup_query h this) @ [as]\<rparr>],
         promises := promises h @ [Pending, Pending],
         objects := objects h @ dup_objects h this,
         prototypes := dup_prototypes h this\<rparr>)"
  using assms by (simp add: Join_join_def dup_eq set_query_def)

lemma dup_query_ModelQuery:
  assumes "identity (queries h ! this) = ModelQuery"
  shows "dup_query h this = (queries h ! this)
           \<lparr>q_executed := False, q_promise := Suc (length (promises h)),
            q_joinedRelations := map_option (\<lambda>m. length (objects h)) (q_joinedRelations (queries h ! this))\<rparr>"
  using assms by (simp add: dup_query_def Let_def)

lemma joinRelation_eq:
  assumes wf: "wf_heap h" and t: "this < length (queries h)"
    and jr: "joinRelation h this name through rel = Inr (d, h')"
  shows "\<exists>m es. identity (queries h ! this) = ModelQuery
          \<and> q_model (queries h ! this) = Some m \<and> joined h this = Some es
          \<and> d = length (queries h)
          \<and> h' = h\<lparr>queries := queries h @
                     [(dup_query h this)\<lparr>q_joins := q_joins (queries h ! this) @
                        [[join_arg m es rel, Str ''inner'',
                          Cond (JoinCondition rel (join_base h this through rel)
                                  (join_alias m es rel))]]\<rparr>],
                   promises := promises h @ [Pending, Pending],
                   objects := objects h @
                     [joined_after name \<lparr>jd_as = join_alias m es rel, jd_relation = rel\<rparr> es],
                   prototypes :=
                     join_prototypes h name \<lparr>jd_as = join_alias m es rel, jd_relation = rel\<rparr>\<rparr>"
proof -
  obtain m where m: "q_model (queries h ! this) = Some m"
    using jr by (cases "q_model (queries h ! this)")
      (auto simp: joinRelation_def tableInQuery_def Let_def split: if_splits option.splits sum.splits)
  have cls: "identity (queries h ! this) = ModelQuery"
    using jr t m
    by (cases "identity (queries h ! this)")
       (auto simp: joinRelation_def tableInQuery_def uniqueTableAlias_def Let_def Join_join_eq dup_query_def
          split: if_splits option.splits sum.splits)
  obtain mref where mref: "q_joinedRelations (queries h ! this) = Some mref"
    using jr t m cls
    by (cases "q_joinedRelations (queries h ! this)")
       (auto simp: joinRelation_def tableInQuery_def uniqueTableAlias_def Let_def Join_join_eq dup_query_def
          split: if_splits option.splits sum.splits)
  define es where "es = objects h ! mref"
  have es: "joined h this = Some es"
    by (simp add: joined_def mref es_def)
  have dq: "dup_query h this = (queries h ! this)
           \<lparr>q_executed := False, q_promise := Suc (length (promises h)),
            q_joinedRelations := Some (length (objects h))\<rparr>"
    using cls mref by (simp add: dup_query_ModelQuery)
  have dobj: "dup_objects h this = [es]"
    using cls es by (simp add: dup_objects_def)
  have tq: "tableInQuery h this x = Inr (tableInQuery_of m (Some es) x)" for x
    by (simp add: tableInQuery_def m es)
  have ua: "uniqueTableAlias h this x = Inr (uniqueTableAlias_loop m (Some es) x x 1)" for x
    by (simp add: uniqueTableAlias_def m es)
  define pv where "pv = (if truthy through then get_property h mref (the through) else Falsy)"
  have thr: "(if truthy through then
              (case q_joinedRelations (queries h ! this) of
                 None \<Rightarrow> Inl (TypeError ''undefined map'')
               | Some m \<Rightarrow> Inr (get_property h m (the through)))
            else Inr Falsy) = Inr pv"
    by (simp add: mref pv_def)
  have base: "join_base h this through rel
      = (case pv of Details details \<Rightarrow> Some (jd_as details) | Other \<Rightarrow> None
         | Falsy \<Rightarrow> Some (tableName (modelClass rel)))"
    by (simp add: join_base_def mref pv_def)
  have jj: "Join_join h this as =
      (length (queries h),
       h\<lparr>queries := queries h @ [(dup_query h this)\<lparr>q_joins := q_joins (queries h ! this) @ [as]\<rparr>],
         promises := promises h @ [Pending, Pending],
         objects := objects h @ [es],
         prototypes := AList.delete (length (objects h)) (prototypes h)\<rparr>)" for as
    using t by (simp add: Join_join_eq dobj dq dup_prototypes_def)
  have dm: "q_joinedRelations (dup_query h this) = Some (length (objects h))"
    by (simp add: dq)
  have "joinRelation h this name through rel =
      Inr (length (queries h),
           h\<lparr>queries := queries h @
                     [(dup_query h this)\<lparr>q_joins := q_joins (queries h ! this) @
                        [[join_arg m es rel, Str ''inner'',
                          Cond (JoinCondition rel (join_base h this through rel)
                                  (join_alias m es rel))]]\<rparr>],
                   promises := promises h @ [Pending, Pending],
                   objects := objects h @
                     [joined_after name \<lparr>jd_as = join_alias m es rel, jd_relation = rel\<rparr> es],
                   prototypes :=
                     join_prototypes h name \<lparr>jd_as = join_alias m es rel, jd_relation = rel\<rparr>\<rparr>)"
    unfolding joinRelation_def thr tq ua jj Let_def base
    by (simp add: join_alias_def join_arg_def dm set_property_def joined_after_def
        join_prototypes_def)
  with jr show ?thesis
    using m cls es by simp
qed

lemma joinRelation_extends:
  assumes wf: "wf_heap h" and t: "this < length (queries h)"
    and jr: "joinRelation h this name through rel = Inr (d, h')"
  shows "extends h h'" "d = length (queries h)" "length (queries h') = Suc (length (queries h))"
    "wf_heap h'"
proof -
  from joinRelation_eq [OF assms] obtain m es where
    cls: "identity (queries h ! this) = ModelQuery" and d: "d = length (queries h)"
    and h': "h' = h\<lparr>queries := queries h @
                     [(dup_query h this)\<lparr>q_joins := q_joins (queries h ! this) @
                        [[join_arg m es rel, Str ''inner'',
                          Cond (JoinCondition rel (join_base h this through rel)
                                  (join_alias m es rel))]]\<rparr>],
                   promises := promises h @ [Pending, Pending],
                   objects := objects h @
                     [joined_after name \<lparr>jd_as = join_alias m es rel, jd_relation = rel\<rparr> es],
                   prototypes :=
                     join_prototypes h name \<lparr>jd_as = join_alias m es rel, jd_relation = rel\<rparr>\<rparr>"
    by blast
  show "extends h h'" by (simp add: h' extends_def)
  show "d = length (queries h)" by (rule d)
  show "length (queries h') = Suc (length (queries h))" by (simp add: h')
  have old: "q_promise q < length (promises h')
      \<and> (case q_joinedRelations q of None \<Rightarrow> True | Some m \<Rightarrow> m < length (objects h'))"
    if "q \<in> set (queries h)" for q
    using that wf unfolding wf_heap_def h' by (auto split: option.splits)
  have new: "q_promise (dup_query h this) = Suc (length (promises h))"
    "case q_joinedRelations (dup_query h this) of None \<Rightarrow> True | Some m \<Rightarrow> m = length (objects h)"
    using cls by (auto simp: dup_query_def Let_def split: option.splits)
  show "wf_heap h'"
    unfolding wf_heap_def using old new by (auto simp: h' split: option.splits)
qed

lemma join_each_extends:
  assumes "join_each E h this xs through d = Inr (d', h')"
    and "wf_heap h" "d < length (queries h)"
  shows "extends h h' \<and> wf_heap h' \<and> d \<le> d' \<and> d' < length (queries h')"
  using assms
proof (induction xs arbitrary: h through d)
  case Nil
  then show ?case by (simp add: extends_refl)
next
  case (Cons x xs)
  from Cons.prems(1) obtain rel d1 h1 where
    jr: "joinRelation h d x through rel = Inr (d1, h1)"
    and rest: "join_each E h1 this xs (Some x) d1 = Inr (d', h')"
    by (auto split: sum.splits)
  note step = joinRelation_extends [OF Cons.prems(2,3) jr]
  from step have d1: "d1 < length (queries h1)" by simp
  from Cons.IH [OF rest step(4) d1]
  have "extends h1 h' \<and> wf_heap h' \<and> d1 \<le> d' \<and> d' < length (queries h')" .
  with step Cons.prems(3) show ?case
    by (auto intro: extends_trans)
qed

lemma joinAssociation_extends:
  assumes wf: "wf_heap h" and t: "this < length (queries h)"
    and ja: "joinAssociation E h this a = Inr (d, h')"
  shows "extends h h' \<and> wf_heap h' \<and> length (queries h) \<le> d \<and> d < length (queries h')"
proof -
  obtain d0 h0 where du: "dup h this = (d0, h0)" by (cases "dup h this")
  with ja obtain xs where je: "join_each E h0 this xs None d0 = Inr (d, h')"
    by (auto simp: joinAssociation_def split: sum.splits)
  note D = dup_extends [OF t du] dup_wf [OF wf t du]
  from D have "d0 < length (queries h0)" by simp
  from join_each_extends [OF je D(4) this] D show ?thesis
    by (auto intro: extends_trans)
qed

lemma Join_join_extends:
  assumes t: "this < length (queries h)" and jj: "Join_join h this as = (d, h')"
  shows "extends h h' \<and> d = length (queries h) \<and> d < length (queries h')"
  using assms by (auto simp: Join_join_eq extends_def)

lemma join_extends:
  assumes wf: "wf_heap h" and t: "this < length (queries h)"
    and j: "join E h this as = Inr (d, h')"
  shows "extends h h' \<and> length (queries h) \<le> d \<and> d < length (queries h')"
proof (cases "length as = 1")
  case True
  with j have "joinAssociation E h this (as ! 0) = Inr (d, h')" by (simp add: join_def)
  from joinAssociation_extends [OF wf t this] show ?thesis by simp
next
  case False
  with j have "Join_join h this as = (d, h')" by (simp add: join_def)
  from Join_join_extends [OF t this] show ?thesis by simp
qed

lemma spawn_extends:
  assumes t: "this < length (queries h)" and sp: "spawn E h this type a = (d, h')"
  shows "extends h h' \<and> d = length (queries h) \<and> d < length (queries h')"
proof -
  have "extends h (snd (spawn E h this type a)) \<and> fst (spawn E h this type a) = length (queries h)
      \<and> length (queries h) < length (queries (snd (spawn E h this type a)))"
    using t
    by (cases "identity (queries h ! this)"; cases type; cases "q_joinedRelations (queries h ! this)")
       (simp_all add: spawn_def new_query_def new_promise_def take_of_def create_of_def
          new_object_def
          BaseQuery_take_def structural_take_def ModelQuery_take_def set_query_def Let_def
          extends_def nth_append)
  with sp show ?thesis by simp
qed

section \<open>Queries are not changed by the operations that derive queries\<close>

text \<open>
  C1. In a store where the references of the queries are valid, each of \<^verbatim>\<open>_dup\<close>,
  \<^verbatim>\<open>clone\<close>, \<^verbatim>\<open>_spawn\<close>, \<^verbatim>\<open>join\<close> and \<^verbatim>\<open>_joinAssociation\<close> on a query \<open>q\<close> returns a
  query that was not in the store before and leaves the state of \<open>q\<close>, and so its
  statement, as it was. The map of a duplicate of a model query is a new object with the
  entries of the map of \<open>q\<close>, and storing anything in it does not change \<open>q\<close>.
\<close>

theorem chaining_keeps_original:
  assumes wf: "wf_heap h" and q: "q < length (queries h)"
  shows "keeps E h q (dup h q)
       \<and> keeps E h q (clone h q)
       \<and> keeps E h q (spawn E h q type a)
       \<and> (\<forall>r. join E h q as = Inr r \<longrightarrow> keeps E h q r)
       \<and> (\<forall>r. joinAssociation E h q association = Inr r \<longrightarrow> keeps E h q r)
       \<and> (\<forall>m. identity (queries h ! q) = ModelQuery \<and> q_joinedRelations (queries h ! q) = Some m \<longrightarrow>
            (case dup h q of (d, h') \<Rightarrow>
               \<exists>m'. q_joinedRelations (queries h' ! d) = Some m' \<and> m' \<noteq> m
                  \<and> objects h' ! m' = objects h ! m
                  \<and> (\<forall>es. own_state (h'\<lparr>objects := (objects h')[m' := es]\<rparr>) q = own_state h q
                         \<and> statement_of E (h'\<lparr>objects := (objects h')[m' := es]\<rparr>) q
                             = statement_of E h q)))"
proof -
  have K: "keeps E h q (d, h')"
    if "extends h h'" "length (queries h) \<le> d" "d < length (queries h')" for d h'
    using that wf q by (auto intro: extends_keeps)
  have 1: "keeps E h q (dup h q)"
  proof -
    obtain d h' where du: "dup h q = (d, h')" by (cases "dup h q")
    from dup_extends [OF q du] K show ?thesis by (simp add: du)
  qed
  then have 2: "keeps E h q (clone h q)"
    by (simp add: clone_def)
  have 3: "keeps E h q (spawn E h q type a)"
  proof -
    obtain d h' where sp: "spawn E h q type a = (d, h')" by (cases "spawn E h q type a")
    from spawn_extends [OF q sp] K show ?thesis by (simp add: sp)
  qed
  have 4: "keeps E h q r" if "join E h q as = Inr r" for r
  proof -
    obtain d h' where r: "r = (d, h')" by (cases r)
    from join_extends [OF wf q that [unfolded r]] K show ?thesis by (simp add: r)
  qed
  have 5: "keeps E h q r" if "joinAssociation E h q association = Inr r" for r
  proof -
    obtain d h' where r: "r = (d, h')" by (cases r)
    from joinAssociation_extends [OF wf q that [unfolded r]] K show ?thesis by (simp add: r)
  qed
  have 6: "case dup h q of (d, h') \<Rightarrow>
               \<exists>m'. q_joinedRelations (queries h' ! d) = Some m' \<and> m' \<noteq> m
                  \<and> objects h' ! m' = objects h ! m
                  \<and> (\<forall>es. own_state (h'\<lparr>objects := (objects h')[m' := es]\<rparr>) q = own_state h q
                         \<and> statement_of E (h'\<lparr>objects := (objects h')[m' := es]\<rparr>) q
                             = statement_of E h q)"
    if cls: "identity (queries h ! q) = ModelQuery"
      and m: "q_joinedRelations (queries h ! q) = Some m" for m
  proof -
    have ml: "m < length (objects h)"
      using wf q m by (rule wf_heap_query)
    have dq: "q_joinedRelations (dup_query h q) = Some (length (objects h))"
      using cls m by (simp add: dup_query_ModelQuery)
    have dobj: "dup_objects h q = [objects h ! m]"
      using cls m by (simp add: dup_objects_def joined_def)
    show ?thesis
      using q ml cls m
      by (simp add: dup_eq dq dobj own_state_def joined_def statement_of_def nth_append)
  qed
  show ?thesis
  proof (intro conjI allI impI)
    show "keeps E h q (dup h q)" by (rule 1)
    show "keeps E h q (clone h q)" by (rule 2)
    show "keeps E h q (spawn E h q type a)" by (rule 3)
    show "keeps E h q r" if "join E h q as = Inr r" for r using that by (rule 4)
    show "keeps E h q r" if "joinAssociation E h q association = Inr r" for r
      using that by (rule 5)
    show "case dup h q of (d, h') \<Rightarrow>
               \<exists>m'. q_joinedRelations (queries h' ! d) = Some m' \<and> m' \<noteq> m
                  \<and> objects h' ! m' = objects h ! m
                  \<and> (\<forall>es. own_state (h'\<lparr>objects := (objects h')[m' := es]\<rparr>) q = own_state h q
                         \<and> statement_of E (h'\<lparr>objects := (objects h')[m' := es]\<rparr>) q
                             = statement_of E h q)"
      if "identity (queries h ! q) = ModelQuery \<and> q_joinedRelations (queries h ! q) = Some m" for m
      using that by (intro 6) simp_all
  qed
qed

theorem chaining_keeps_original_witness:
  "keeps example_env example_heap 0 (dup example_heap 0)
   \<and> keeps example_env example_heap 0 (clone example_heap 0)
   \<and> keeps example_env example_heap 0 (spawn example_env example_heap 0 ModelQuery ())
   \<and> (case join example_env example_heap 0 [Str ''author''] of
         Inl e \<Rightarrow> False | Inr r \<Rightarrow> keeps example_env example_heap 0 r)
   \<and> (case joinAssociation example_env example_heap 0 (Str ''author'') of
         Inl e \<Rightarrow> False | Inr r \<Rightarrow> keeps example_env example_heap 0 r)
   \<and> q_joinedRelations (queries (snd (dup example_heap 0)) ! fst (dup example_heap 0)) = Some 1
   \<and> q_joinedRelations (queries example_heap ! 0) = Some 0"
proof -
  have ok: "\<not> isl (join example_env example_heap 0 [Str ''author''])"
    "\<not> isl (joinAssociation example_env example_heap 0 (Str ''author''))"
    by code_simp+
  have m: "identity (queries example_heap ! 0) = ModelQuery"
    "q_joinedRelations (queries example_heap ! 0) = Some 0"
    "q_joinedRelations (queries (snd (dup example_heap 0)) ! fst (dup example_heap 0)) = Some 1"
    by code_simp+
  have wf: "wf_heap example_heap"
    by (simp add: wf_heap_def example_heap_def articles_query_def base_query_def)
  have q: "0 < length (queries example_heap)"
    by (simp add: example_heap_def)
  from chaining_keeps_original [OF wf q, of example_env ModelQuery "()" "[Str ''author'']" "Str ''author''"]
    ok m show ?thesis
    by (auto simp: isl_def split: sum.splits)
qed

section \<open>Statements and execution\<close>

lemma execute_executed:
  assumes "q_executed (queries h ! q)"
  shows "execute E h q = (Follows (q_promise (queries h ! q)), h)"
  using assms by (simp add: execute_def)

lemma execute_returns:
  "fst (execute E h q) = Follows (q_promise (queries h ! q))"
  by (simp add: execute_def Let_def split: execution.splits)

lemma settle_promise_queries [simp]:
  "queries (settle_promise h p v) = queries h"
  "adapter_calls (settle_promise h p v) = adapter_calls h"
  "length (promises (settle_promise h p v)) = length (promises h)"
  by (simp_all add: settle_promise_def)

lemma settle_promise_settled:
  "promises h ! p \<noteq> Pending \<Longrightarrow> settle_promise h p v = h"
  by (simp add: settle_promise_def)

lemma settle_promise_pending:
  "p < length (promises h) \<Longrightarrow> promises h ! p = Pending \<Longrightarrow>
   promises (settle_promise h p v) ! p = v"
  by (simp add: settle_promise_def)

lemma execute_sets_flag:
  assumes "q < length (queries h)"
  shows "q_executed (queries (snd (execute E h q)) ! q)"
    and "q_promise (queries (snd (execute E h q)) ! q) = q_promise (queries h ! q)"
    and "length (queries (snd (execute E h q))) = length (queries h)"
  using assms
  by (auto simp: execute_def set_query_def Let_def split: execution.splits)

lemma execute_calls_at_most_once:
  "adapter_calls (snd (execute E h q)) = adapter_calls h
   \<or> (\<exists>a s. \<not> q_executed (queries h ! q)
         \<and> adapter_calls (snd (execute E h q)) = adapter_calls h @ [(a, q, s)])"
  by (auto simp: execute_def set_query_def Let_def split: execution.splits)

lemma execute_settled:
  assumes "promises h ! q_promise (queries h ! q) \<noteq> Pending"
  shows "promises (snd (execute E h q)) = promises h"
  using assms
  by (auto simp: execute_def set_query_def settle_promise_def Let_def split: execution.splits)

lemma execute_calls_adapter:
  assumes "q < length (queries h)" "\<not> q_executed (queries h ! q)"
    and "rendered_on_execute E h q = Inr s" "q_adapter (queries h ! q) = Some a"
  shows "execute E h q
       = (Follows (q_promise (queries h ! q)),
          (set_query h q ((queries h ! q)\<lparr>q_executed := True\<rparr>))
            \<lparr>adapter_calls := adapter_calls h @ [(a, q, s)]\<rparr>)"
  using assms
  by (simp add: execute_def rendered_on_execute_def Transform_execute_def BaseQuery_execute_def
      set_query_def Let_def)

lemma settle_frame:
  "queries (settle h q x) = queries h" "adapter_calls (settle h q x) = adapter_calls h"
  by (simp_all add: settle_def)

lemma settle_settled:
  "promises h ! q_promise (queries h ! q) \<noteq> Pending \<Longrightarrow> settle h q x = h"
  by (simp add: settle_def settle_promise_settled)

lemma run_invariant:
  assumes "q < length (queries h)" and "run E h q evs = (rs, h')"
  shows "(\<forall>r \<in> set rs. r = Follows (q_promise (queries h ! q)))
       \<and> length (queries h') = length (queries h)
       \<and> q_promise (queries h' ! q) = q_promise (queries h ! q)
       \<and> (q_executed (queries h ! q) \<longrightarrow>
            q_executed (queries h' ! q) \<and> adapter_calls h' = adapter_calls h)
       \<and> (adapter_calls h' = adapter_calls h
          \<or> (\<exists>a s. \<not> q_executed (queries h ! q)
                \<and> adapter_calls h' = adapter_calls h @ [(a, q, s)]))
       \<and> (rs \<noteq> [] \<longrightarrow> q_executed (queries h' ! q))
       \<and> (promises h ! q_promise (queries h ! q) \<noteq> Pending \<longrightarrow> promises h' = promises h)"
  using assms
proof (induction evs arbitrary: h rs)
  case Nil
  then show ?case by simp
next
  case (Cons ev evs)
  show ?case
  proof (cases ev)
    case (Settled x)
    with Cons.prems have r: "run E (settle h q x) q evs = (rs, h')" by simp
    have q: "q < length (queries (settle h q x))"
      using Cons.prems(1) by (simp add: settle_frame)
    from Cons.IH [OF q r] show ?thesis
      by (auto simp: settle_frame settle_settled)
  next
    case Execute
    obtain r h1 where e: "execute E h q = (r, h1)" by (cases "execute E h q")
    obtain rs1 where r1: "run E h1 q evs = (rs1, h')" and rs: "rs = r # rs1"
      using Cons.prems(2) Execute e by (auto split: prod.splits)
    have rr: "r = Follows (q_promise (queries h ! q))"
      using execute_returns [of E h q] e by simp
    have f: "q_executed (queries h1 ! q)" "q_promise (queries h1 ! q) = q_promise (queries h ! q)"
      "length (queries h1) = length (queries h)"
      using execute_sets_flag [OF Cons.prems(1), of E] e by simp_all
    have c: "adapter_calls h1 = adapter_calls h
       \<or> (\<exists>a s. \<not> q_executed (queries h ! q) \<and> adapter_calls h1 = adapter_calls h @ [(a, q, s)])"
      using execute_calls_at_most_once [of E h q] e by simp
    have x: "q_executed (queries h ! q) \<Longrightarrow> h1 = h"
      using execute_executed [of h q E] e by simp
    have s: "promises h ! q_promise (queries h ! q) \<noteq> Pending \<Longrightarrow> promises h1 = promises h"
      using execute_settled [of h q E] e by simp
    have q1: "q < length (queries h1)" using f Cons.prems(1) by simp
    from Cons.IH [OF q1 r1] rr f c x s show ?thesis
      unfolding rs by auto
  next
    case Then
    obtain r h1 where e: "execute E h q = (r, h1)" by (cases "execute E h q")
    obtain rs1 where r1: "run E h1 q evs = (rs1, h')" and rs: "rs = r # rs1"
      using Cons.prems(2) Then e by (auto simp: then_of_def split: prod.splits)
    have rr: "r = Follows (q_promise (queries h ! q))"
      using execute_returns [of E h q] e by simp
    have f: "q_executed (queries h1 ! q)" "q_promise (queries h1 ! q) = q_promise (queries h ! q)"
      "length (queries h1) = length (queries h)"
      using execute_sets_flag [OF Cons.prems(1), of E] e by simp_all
    have c: "adapter_calls h1 = adapter_calls h
       \<or> (\<exists>a s. \<not> q_executed (queries h ! q) \<and> adapter_calls h1 = adapter_calls h @ [(a, q, s)])"
      using execute_calls_at_most_once [of E h q] e by simp
    have x: "q_executed (queries h ! q) \<Longrightarrow> h1 = h"
      using execute_executed [of h q E] e by simp
    have s: "promises h ! q_promise (queries h ! q) \<noteq> Pending \<Longrightarrow> promises h1 = promises h"
      using execute_settled [of h q E] e by simp
    have q1: "q < length (queries h1)" using f Cons.prems(1) by simp
    from Cons.IH [OF q1 r1] rr f c x s show ?thesis
      unfolding rs by auto
  qed
qed

lemma settle_objects: "objects (settle h q x) = objects h"
  by (simp add: settle_def settle_promise_def)

lemma rendered_on_execute_settle:
  "rendered_on_execute E (settle h q x) q = rendered_on_execute E h q"
  by (simp add: rendered_on_execute_def statement_of_def set_query_def joined_def
      settle_def settle_promise_def split: query_class.splits)

lemma run_first_call:
  assumes "q < length (queries h)" and "run E h q evs = (rs, h')" and "rs \<noteq> []"
    and "\<not> q_executed (queries h ! q)"
    and "rendered_on_execute E h q = Inr s" and "q_adapter (queries h ! q) = Some a"
  shows "adapter_calls h' = adapter_calls h @ [(a, q, s)]"
  using assms
proof (induction evs arbitrary: h rs)
  case Nil
  then show ?case by simp
next
  case (Cons ev evs)
  have call: ?case if e: "run E h q (ev # evs)
      = (let (r, h1) = execute E h q; (rs, h2) = run E h1 q evs in (r # rs, h2))"
  proof -
    define h1 where "h1 = (set_query h q ((queries h ! q)\<lparr>q_executed := True\<rparr>))
            \<lparr>adapter_calls := adapter_calls h @ [(a, q, s)]\<rparr>"
    have x: "execute E h q = (Follows (q_promise (queries h ! q)), h1)"
      unfolding h1_def using Cons.prems by (intro execute_calls_adapter)
    obtain rs1 where r1: "run E h1 q evs = (rs1, h')"
      using Cons.prems(2) e x by (auto split: prod.splits)
    have q1: "q < length (queries h1)" "q_executed (queries h1 ! q)"
      using Cons.prems(1) by (simp_all add: h1_def set_query_def)
    from run_invariant [OF q1(1) r1] q1(2) have "adapter_calls h' = adapter_calls h1" by simp
    then show ?thesis by (simp add: h1_def set_query_def)
  qed
  show ?case
  proof (cases ev)
    case Execute
    then show ?thesis by (intro call) simp
  next
    case Then
    then show ?thesis by (intro call) (simp add: then_of_def)
  next
    case (Settled x)
    with Cons.prems have r: "run E (settle h q x) q evs = (rs, h')" by simp
    from Cons.IH [OF _ r] Cons.prems show ?thesis
      by (simp add: settle_frame rendered_on_execute_settle)
  qed
qed

text \<open>
  C2. Over any sequence of calls of \<^verbatim>\<open>execute\<close> and \<^verbatim>\<open>then\<close> on a query, with the call of
  the adapter settling at any point between them, every call returns a promise that
  follows the one promise of the query, so all observers see the same outcome; at most
  one call of the adapter is recorded, made by the first call (which sets the flag) when
  the statement renders and the query has an adapter; and a promise that is settled is
  not changed by anything that follows.
\<close>

theorem execute_once:
  assumes "q < length (queries h)" and "run E h q evs = (rs, h')"
  shows "(\<forall>r \<in> set rs. r = Follows (q_promise (queries h ! q)))
       \<and> (\<forall>r1 \<in> set rs. \<forall>r2 \<in> set rs. observed h' r1 = observed h' r2)
       \<and> (adapter_calls h' = adapter_calls h
          \<or> (\<exists>a s. \<not> q_executed (queries h ! q)
                \<and> adapter_calls h' = adapter_calls h @ [(a, q, s)]))
       \<and> (rs \<noteq> [] \<longrightarrow> q_executed (queries h' ! q))
       \<and> (promises h ! q_promise (queries h ! q) \<noteq> Pending \<longrightarrow> promises h' = promises h)
       \<and> (\<forall>a s. rs \<noteq> [] \<and> \<not> q_executed (queries h ! q)
                \<and> rendered_on_execute E h q = Inr s \<and> q_adapter (queries h ! q) = Some a \<longrightarrow>
              adapter_calls h' = adapter_calls h @ [(a, q, s)])"
proof -
  note I = run_invariant [OF assms]
  have same: "\<forall>r \<in> set rs. r = Follows (q_promise (queries h ! q))" using I by blast
  then have obs: "\<forall>r1 \<in> set rs. \<forall>r2 \<in> set rs. observed h' r1 = observed h' r2" by metis
  have first: "adapter_calls h' = adapter_calls h @ [(a, q, s)]"
    if "rs \<noteq> [] \<and> \<not> q_executed (queries h ! q)
          \<and> rendered_on_execute E h q = Inr s \<and> q_adapter (queries h ! q) = Some a" for a s
    using run_first_call [OF assms] that by blast
  from same obs I first show ?thesis by blast
qed

theorem execute_once_witness:
  "fst (run example_env example_heap 0 some_events)
     = [Follows 0, Follows 0, Follows 0, Follows 0]
   \<and> adapter_calls (snd (run example_env example_heap 0 some_events))
     = [(0, 0, \<lparr>sql = ''SELECT * FROM articles'', args = []\<rparr>)]
   \<and> promises (snd (run example_env example_heap 0 some_events)) ! 0 = Fulfilled some_result
   \<and> q_executed (queries (snd (run example_env example_heap 0 some_events)) ! 0)
   \<and> fst (run example_env example_heap 1 [Execute, Then]) = [Follows 1, Follows 1]
   \<and> promises (snd (run example_env example_heap 1 [Execute, Then])) ! 1
     = Rejected (Error ''BaseQuery cannot be used directly.'')
   \<and> adapter_calls (snd (run example_env example_heap 1 [Execute, Then])) = []"
proof -
  have q: "0 < length (queries example_heap)" "1 < length (queries example_heap)"
    by (simp_all add: example_heap_def)
  have c: "length (fst (run example_env example_heap 0 some_events)) = 4"
    "q_promise (queries example_heap ! 0) = 0"
    "promises (snd (run example_env example_heap 0 some_events)) ! 0 = Fulfilled some_result"
    "\<not> q_executed (queries example_heap ! 0)"
    "rendered_on_execute example_env example_heap 0
       = Inr \<lparr>sql = ''SELECT * FROM articles'', args = []\<rparr>"
    "q_adapter (queries example_heap ! 0) = Some 0"
    "adapter_calls example_heap = []"
    by code_simp+
  have b: "length (fst (run example_env example_heap 1 [Execute, Then])) = 2"
    "q_promise (queries example_heap ! 1) = 1"
    "promises (snd (run example_env example_heap 1 [Execute, Then])) ! 1
       = Rejected (Error ''BaseQuery cannot be used directly.'')"
    "adapter_calls (snd (run example_env example_heap 1 [Execute, Then])) = []"
    by code_simp+
  have l4: "xs = [x, x, x, x]" if "length xs = 4" "\<forall>r \<in> set xs. r = x" for xs :: "returned list" and x
    using that by (auto simp: length_Suc_conv numeral_eq_Suc)
  have l2: "xs = [x, x]" if "length xs = 2" "\<forall>r \<in> set xs. r = x" for xs :: "returned list" and x
    using that by (auto simp: length_Suc_conv numeral_eq_Suc)
  note A = execute_once
      [OF q(1) surjective_pairing [of "run example_env example_heap 0 some_events"]]
  note B = execute_once
      [OF q(2) surjective_pairing [of "run example_env example_heap 1 [Execute, Then]"]]
  have r0: "fst (run example_env example_heap 0 some_events) = [Follows 0, Follows 0, Follows 0, Follows 0]"
    using A c(1,2) by (intro l4) simp_all
  have r1: "fst (run example_env example_heap 1 [Execute, Then]) = [Follows 1, Follows 1]"
    using B b(1,2) by (intro l2) simp_all
  have calls: "adapter_calls (snd (run example_env example_heap 0 some_events))
     = [(0, 0, \<lparr>sql = ''SELECT * FROM articles'', args = []\<rparr>)]"
    using A c r0 by simp
  have ex: "q_executed (queries (snd (run example_env example_heap 0 some_events)) ! 0)"
    using A r0 by simp
  from r0 r1 calls ex c b show ?thesis by simp
qed

text \<open>
  C8. The statement of a query of the base class is an error for every state of the
  query, and so are its SQL and its arguments. \<^verbatim>\<open>execute\<close> does not call the adapter, and
  the caller of \<^verbatim>\<open>execute\<close> on a query that has not been executed sees the promise
  rejected with this error.
\<close>

theorem base_statement_throws:
  assumes "q < length (queries h)" and "identity (queries h ! q) = BaseQuery"
  shows "statement_of E h q = Inl (Error ''BaseQuery cannot be used directly.'')
       \<and> sql_of E h q = Inl (Error ''BaseQuery cannot be used directly.'')
       \<and> args_of E h q = Inl (Error ''BaseQuery cannot be used directly.'')
       \<and> adapter_calls (snd (execute E h q)) = adapter_calls h
       \<and> (\<not> q_executed (queries h ! q) \<and> q_promise (queries h ! q) < length (promises h)
            \<and> promises h ! q_promise (queries h ! q) = Pending \<longrightarrow>
            observed (snd (execute E h q)) (fst (execute E h q))
              = Rejected (Error ''BaseQuery cannot be used directly.''))"
  using assms
  by (simp add: statement_of_def sql_of_def args_of_def execute_def Transform_execute_def
      BaseQuery_execute_def set_query_def settle_promise_def observed_def Let_def)

theorem base_statement_throws_witness:
  "statement_of example_env example_heap 1 = Inl (Error ''BaseQuery cannot be used directly.'')
   \<and> sql_of example_env example_heap 1 = Inl (Error ''BaseQuery cannot be used directly.'')
   \<and> observed (snd (execute example_env example_heap 1)) (fst (execute example_env example_heap 1))
        = Rejected (Error ''BaseQuery cannot be used directly.'')
   \<and> adapter_calls (snd (execute example_env example_heap 1)) = []"
  using base_statement_throws [of 1 example_heap example_env]
  by (simp add: example_heap_def base_query_def)

text \<open>
  C7. The duplicate that \<^verbatim>\<open>clone\<close> returns has its flag unset and a promise that is new and
  pending, whatever the state of the query and of its promise. If the statement of the
  clone renders and the query has an adapter, executing the clone calls the adapter: one
  more call is recorded, made by the clone.
\<close>

theorem clone_resets_result:
  assumes wf: "wf_heap h" and q: "q < length (queries h)"
  shows "case clone h q of (d, h') \<Rightarrow>
           d = length (queries h)
         \<and> \<not> q_executed (queries h' ! d)
         \<and> length (promises h) \<le> q_promise (queries h' ! d)
         \<and> q_promise (queries h' ! d) \<noteq> q_promise (queries h ! q)
         \<and> promises h' ! q_promise (queries h' ! d) = Pending
         \<and> (\<forall>s a. rendered_on_execute E h' d = Inr s \<and> q_adapter (queries h ! q) = Some a \<longrightarrow>
               fst (execute E h' d) = Follows (q_promise (queries h' ! d))
             \<and> adapter_calls (snd (execute E h' d)) = adapter_calls h @ [(a, d, s)])"
proof -
  define h' where "h' = h\<lparr>queries := queries h @ [dup_query h q],
         promises := promises h @ [Pending, Pending],
         objects := objects h @ dup_objects h q,
         prototypes := dup_prototypes h q\<rparr>"
  define d where "d = length (queries h)"
  have c: "clone h q = (d, h')"
    using q by (simp add: clone_def dup_eq h'_def d_def)
  have dq: "queries h' ! d = dup_query h q"
    by (simp add: h'_def d_def)
  have f: "\<not> q_executed (dup_query h q)" "q_promise (dup_query h q) = Suc (length (promises h))"
    "q_adapter (dup_query h q) = q_adapter (queries h ! q)"
    by (simp_all add: dup_query_def Let_def split: query_class.splits)
  have old: "q_promise (queries h ! q) < length (promises h)"
    using wf q unfolding wf_heap_def by (auto dest: nth_mem)
  have pend: "promises h' ! Suc (length (promises h)) = Pending"
    by (simp add: h'_def nth_append)
  have ex: "fst (execute E h' d) = Follows (q_promise (queries h' ! d))
             \<and> adapter_calls (snd (execute E h' d)) = adapter_calls h @ [(a, d, s)]"
    if "rendered_on_execute E h' d = Inr s" "q_adapter (queries h ! q) = Some a" for s a
  proof -
    have "d < length (queries h')" "\<not> q_executed (queries h' ! d)"
      "q_adapter (queries h' ! d) = Some a"
      using that f by (simp_all add: dq) (simp add: h'_def d_def)
    from execute_calls_adapter [OF this(1,2) that(1) this(3)] show ?thesis
      by (simp add: set_query_def h'_def)
  qed
  show ?thesis
    unfolding c using dq f old pend ex by (simp add: d_def)
qed

theorem clone_resets_result_witness:
  "q_executed (queries settled_heap ! 0)
   \<and> promises settled_heap ! q_promise (queries settled_heap ! 0) = Fulfilled some_result
   \<and> fst (clone settled_heap 0) = 2
   \<and> \<not> q_executed (queries (snd (clone settled_heap 0)) ! 2)
   \<and> promises (snd (clone settled_heap 0)) ! q_promise (queries (snd (clone settled_heap 0)) ! 2)
        = Pending
   \<and> adapter_calls settled_heap = [(0, 0, \<lparr>sql = ''SELECT * FROM articles'', args = []\<rparr>)]
   \<and> adapter_calls (snd (execute example_env (snd (clone settled_heap 0)) 2))
        = [(0, 0, \<lparr>sql = ''SELECT * FROM articles'', args = []\<rparr>),
           (0, 2, \<lparr>sql = ''SELECT * FROM articles'', args = []\<rparr>)]"
proof -
  have wf: "wf_heap settled_heap" by code_simp
  have q: "0 < length (queries settled_heap)" by code_simp
  have c: "fst (clone settled_heap 0) = 2" by code_simp
  have r: "rendered_on_execute example_env (snd (clone settled_heap 0)) 2
             = Inr \<lparr>sql = ''SELECT * FROM articles'', args = []\<rparr>"
    by code_simp
  have a: "q_adapter (queries settled_heap ! 0) = Some 0" by code_simp
  have s: "q_executed (queries settled_heap ! 0)"
    "promises settled_heap ! q_promise (queries settled_heap ! 0) = Fulfilled some_result"
    "adapter_calls settled_heap = [(0, 0, \<lparr>sql = ''SELECT * FROM articles'', args = []\<rparr>)]"
    by code_simp+
  from clone_resets_result [OF wf q, of example_env] c r a s show ?thesis
    by (auto simp: split_beta)
qed

section \<open>Joins\<close>

text \<open>
  C6. \<^verbatim>\<open>join\<close> with one argument is \<^verbatim>\<open>_joinAssociation\<close> of that argument. With any other
  number of arguments it is the inherited \<^verbatim>\<open>join\<close>, whatever the helpers find for the
  first argument: the new query has the join descriptors of the query and one more, made
  of the arguments, and the entries of its map are those of the query.
\<close>

theorem join_dispatches_on_argument_count:
  "(length as = 1 \<longrightarrow> join E h q as = joinAssociation E h q (as ! 0))
   \<and> (length as \<noteq> 1 \<longrightarrow>
        join E h q as = Inr (Join_join h q as) \<and> join E' h q as = join E h q as)
   \<and> (length as \<noteq> 1 \<and> wf_heap h \<and> q < length (queries h)
        \<and> identity (queries h ! q) = ModelQuery \<longrightarrow>
        (case Join_join h q as of (d, h') \<Rightarrow>
           q_joins (queries h' ! d) = q_joins (queries h ! q) @ [as]
         \<and> joined h' d = joined h q))"
proof -
  have 3: "case Join_join h q as of (d, h') \<Rightarrow>
           q_joins (queries h' ! d) = q_joins (queries h ! q) @ [as]
         \<and> joined h' d = joined h q"
    if wf: "wf_heap h" and q: "q < length (queries h)"
      and cls: "identity (queries h ! q) = ModelQuery"
  proof (cases "q_joinedRelations (queries h ! q)")
    case None
    then show ?thesis using q cls
      by (simp add: Join_join_eq dup_query_ModelQuery joined_def)
  next
    case (Some m)
    then have "dup_objects h q = [objects h ! m]"
      using cls by (simp add: dup_objects_def joined_def)
    then show ?thesis using q cls Some
      by (simp add: Join_join_eq dup_query_ModelQuery joined_def)
  qed
  show ?thesis
    using 3 by (simp add: join_def)
qed

theorem join_dispatches_on_argument_count_witness:
  "join example_env example_heap 0 [Str ''author'']
     = joinAssociation example_env example_heap 0 (Str ''author'')
   \<and> join example_env example_heap 0 [Str ''author'', Str ''inner'']
     = Inr (Join_join example_heap 0 [Str ''author'', Str ''inner''])
   \<and> q_joins (queries (snd (Join_join example_heap 0 [Str ''author'', Str ''inner'']))
               ! fst (Join_join example_heap 0 [Str ''author'', Str ''inner'']))
     = [[Str ''author'', Str ''inner'']]
   \<and> joined (snd (Join_join example_heap 0 [Str ''author'', Str ''inner'']))
             (fst (Join_join example_heap 0 [Str ''author'', Str ''inner''])) = Some []"
proof -
  have wf: "wf_heap example_heap" by code_simp
  have q: "0 < length (queries example_heap)" "identity (queries example_heap ! 0) = ModelQuery"
    "q_joins (queries example_heap ! 0) = []" "joined example_heap 0 = Some []"
    by code_simp+
  from join_dispatches_on_argument_count [of "[Str ''author'']" example_env example_heap 0 example_env]
    join_dispatches_on_argument_count
      [of "[Str ''author'', Str ''inner'']" example_env example_heap 0 example_env]
    wf q
  show ?thesis by (auto simp: split_beta)
qed

section \<open>Joins of associations\<close>

lemma tableInQuery_of_names:
  "tableInQuery_of m (Some es) x \<longleftrightarrow> x \<in> set (names_in_query m es)"
  by (auto simp: tableInQuery_of_def names_in_query_def list_ex_iff)

lemma joinRelation_result:
  assumes wf: "wf_heap h" and t: "q < length (queries h)"
    and jr: "joinRelation h q name through rel = Inr (d, h')"
  shows "\<exists>m es. identity (queries h ! q) = ModelQuery
      \<and> q_model (queries h ! q) = Some m \<and> joined h q = Some es
      \<and> q_model (queries h' ! d) = Some m
      \<and> q_joins (queries h' ! d) = q_joins (queries h ! q) @
            [[join_arg m es rel, Str ''inner'',
              Cond (JoinCondition rel (join_base h q through rel) (join_alias m es rel))]]
      \<and> joined h' d
          = Some (joined_after name \<lparr>jd_as = join_alias m es rel, jd_relation = rel\<rparr> es)"
proof -
  from joinRelation_eq [OF assms] obtain m es where
    cls: "identity (queries h ! q) = ModelQuery" and d: "d = length (queries h)"
    and m: "q_model (queries h ! q) = Some m" and es: "joined h q = Some es"
    and h': "h' = h\<lparr>queries := queries h @
                     [(dup_query h q)\<lparr>q_joins := q_joins (queries h ! q) @
                        [[join_arg m es rel, Str ''inner'',
                          Cond (JoinCondition rel (join_base h q through rel)
                                  (join_alias m es rel))]]\<rparr>],
                   promises := promises h @ [Pending, Pending],
                   objects := objects h @
                     [joined_after name \<lparr>jd_as = join_alias m es rel, jd_relation = rel\<rparr> es],
                   prototypes :=
                     join_prototypes h name \<lparr>jd_as = join_alias m es rel, jd_relation = rel\<rparr>\<rparr>"
    by blast
  from es have "q_joinedRelations (queries h ! q) \<noteq> None"
    by (auto simp: joined_def)
  then have dm: "q_joinedRelations (dup_query h q) = Some (length (objects h))"
    "q_model (dup_query h q) = Some m"
    using cls m by (auto simp: dup_query_ModelQuery)
  have "q_joins (queries h' ! d) = q_joins (queries h ! q) @
            [[join_arg m es rel, Str ''inner'',
              Cond (JoinCondition rel (join_base h q through rel) (join_alias m es rel))]]"
    by (simp add: h' d)
  moreover have "joined h' d
          = Some (joined_after name \<lparr>jd_as = join_alias m es rel, jd_relation = rel\<rparr> es)"
    by (simp add: joined_def h' d dm)
  moreover have "q_model (queries h' ! d) = Some m"
    by (simp add: h' d dm)
  ultimately show ?thesis using m es cls by blast
qed




lemma dup_ModelQuery:
  assumes q: "q < length (queries h)" and cls: "identity (queries h ! q) = ModelQuery"
    and du: "dup h q = (d, h')"
  shows "q_joins (queries h' ! d) = q_joins (queries h ! q)"
    and "joined h' d = joined h q"
    and "q_model (queries h' ! d) = q_model (queries h ! q)"
proof -
  have h': "d = length (queries h)" "h' = h\<lparr>queries := queries h @ [dup_query h q],
         promises := promises h @ [Pending, Pending],
         objects := objects h @ dup_objects h q,
         prototypes := dup_prototypes h q\<rparr>"
    using du q by (simp_all add: dup_eq)
  show "q_joins (queries h' ! d) = q_joins (queries h ! q)"
    and "q_model (queries h' ! d) = q_model (queries h ! q)"
    using cls by (simp_all add: h' dup_query_ModelQuery)
  show "joined h' d = joined h q"
    using cls
    by (cases "q_joinedRelations (queries h ! q)")
       (simp_all add: h' dup_query_ModelQuery joined_def dup_objects_def)
qed

lemma loop_result:
  "\<not> tableInQuery_of m jr (uniqueTableAlias_loop m jr name al n)
   \<and> (uniqueTableAlias_loop m jr name al n = al
      \<or> tableInQuery_of m jr al
        \<and> (\<exists>k\<ge>n. uniqueTableAlias_loop m jr name al n = name @ ''_j'' @ string_of_nat k
               \<and> (\<forall>j. n \<le> j \<and> j < k \<longrightarrow> tableInQuery_of m jr (name @ ''_j'' @ string_of_nat j))))"
proof (induction m jr name al n rule: uniqueTableAlias_loop.induct)
  case (1 m jr name al n)
  show ?case
  proof (cases "tableInQuery_of m jr al")
    case False
    then have "uniqueTableAlias_loop m jr name al n = al"
      by (subst uniqueTableAlias_loop.simps) simp
    with False show ?thesis by simp
  next
    case True
    let ?c = "name @ ''_j'' @ string_of_nat n"
    let ?r = "uniqueTableAlias_loop m jr name ?c (n + 1)"
    have eq: "uniqueTableAlias_loop m jr name al n = ?r"
      using True by (subst uniqueTableAlias_loop.simps) simp
    from "1.IH" [OF True] have IH: "\<not> tableInQuery_of m jr ?r"
      "?r = ?c \<or> tableInQuery_of m jr ?c
        \<and> (\<exists>k\<ge>n + 1. ?r = name @ ''_j'' @ string_of_nat k
               \<and> (\<forall>j. n + 1 \<le> j \<and> j < k \<longrightarrow> tableInQuery_of m jr (name @ ''_j'' @ string_of_nat j)))"
      by blast+
    from IH(2) have "\<exists>k\<ge>n. ?r = name @ ''_j'' @ string_of_nat k
               \<and> (\<forall>j. n \<le> j \<and> j < k \<longrightarrow> tableInQuery_of m jr (name @ ''_j'' @ string_of_nat j))"
    proof
      assume "?r = ?c"
      then show ?thesis by (intro exI [of _ n]) auto
    next
      assume A: "tableInQuery_of m jr ?c
        \<and> (\<exists>k\<ge>n + 1. ?r = name @ ''_j'' @ string_of_nat k
               \<and> (\<forall>j. n + 1 \<le> j \<and> j < k \<longrightarrow> tableInQuery_of m jr (name @ ''_j'' @ string_of_nat j)))"
      then obtain k where k: "n + 1 \<le> k" "?r = name @ ''_j'' @ string_of_nat k"
        "\<forall>j. n + 1 \<le> j \<and> j < k \<longrightarrow> tableInQuery_of m jr (name @ ''_j'' @ string_of_nat j)"
        by blast
      have "tableInQuery_of m jr (name @ ''_j'' @ string_of_nat j)" if "n \<le> j" "j < k" for j
      proof (cases "j = n")
        case True with A show ?thesis by simp
      next
        case False with that k(3) show ?thesis by simp
      qed
      with k show ?thesis by (intro exI [of _ k]) auto
    qed
    with IH(1) True show ?thesis unfolding eq by blast
  qed
qed

lemma names_update_subset:
  "set (map (\<lambda>(k, joinDetails). jd_as joinDetails) (AList.update k v es))
     \<subseteq> insert (jd_as v) (set (map (\<lambda>(k, joinDetails). jd_as joinDetails) es))"
  by (induction es) auto

lemma names_update_distinct:
  assumes "jd_as v \<notin> set (map (\<lambda>(k, joinDetails). jd_as joinDetails) es)"
    and "distinct (map (\<lambda>(k, joinDetails). jd_as joinDetails) es)"
  shows "distinct (map (\<lambda>(k, joinDetails). jd_as joinDetails) (AList.update k v es))"
  using assms
proof (induction es)
  case Nil
  then show ?case by simp
next
  case (Cons e es)
  obtain k' v' where e: "e = (k', v')" by (cases e)
  show ?case
  proof (cases "k' = k")
    case True
    with Cons.prems e show ?thesis by auto
  next
    case False
    have a: "jd_as v' \<noteq> jd_as v"
      using Cons.prems(1) e by auto
    have b: "jd_as v' \<notin> set (map (\<lambda>(k, joinDetails). jd_as joinDetails) es)"
      using Cons.prems(2) e by auto
    have "jd_as v' \<notin> set (map (\<lambda>(k, joinDetails). jd_as joinDetails) (AList.update k v es))"
      using names_update_subset [of k v es] a b by blast
    with False Cons e show ?thesis by auto
  qed
qed

lemma join_alias_cases:
  "join_alias m es rel \<notin> set (names_in_query m es)
   \<and> (tableName (relatedModel rel) \<notin> set (names_in_query m es) \<longrightarrow>
        join_alias m es rel = tableName (relatedModel rel))
   \<and> (tableName (relatedModel rel) \<in> set (names_in_query m es) \<longrightarrow>
        join_alias m es rel = rel_name rel
        \<or> rel_name rel \<in> set (names_in_query m es)
          \<and> (\<exists>k\<ge>1. join_alias m es rel = rel_name rel @ ''_j'' @ string_of_nat k
                 \<and> (\<forall>j. 1 \<le> j \<and> j < k \<longrightarrow>
                        rel_name rel @ ''_j'' @ string_of_nat j \<in> set (names_in_query m es))))"
  using loop_result [of m "Some es" "rel_name rel" "rel_name rel" 1]
  unfolding join_alias_def tableInQuery_of_names by auto

lemma update_new_key:
  "k \<notin> set (map fst es) \<Longrightarrow> AList.update k v es = es @ [(k, v)]"
  by (induction es) auto

lemma table_names_append:
  "join_name j = Some a \<Longrightarrow> table_names m (js @ [j]) = table_names m js @ [a]"
  by (simp add: table_names_def List.map_filter_def)

lemma join_name_join_arg: "join_name (join_arg m es rel # rest) = Some (join_alias m es rel)"
  by (simp add: join_name_def join_arg_def join_alias_def)

lemma recorded_step:
  assumes rec: "all_joins_recorded m es js" and dis: "distinct (table_names m js)"
    and a: "jd_as v \<notin> set (names_in_query m es)" and j: "join_name j = Some (jd_as v)"
    and n: "name \<noteq> ''__proto__''" "name \<notin> set (map fst es)"
  shows "all_joins_recorded m (joined_after name v es) (js @ [j])"
    and "distinct (table_names m (js @ [j]))"
    and "map fst (joined_after name v es) = map fst es @ [name]"
proof -
  have e: "joined_after name v es = es @ [(name, v)]"
    using n by (simp add: joined_after_def update_new_key)
  have nq: "names_in_query m (es @ [(name, v)]) = names_in_query m es @ [jd_as v]"
    by (simp add: names_in_query_def)
  have tn: "table_names m (js @ [j]) = table_names m js @ [jd_as v]"
    using j by (rule table_names_append)
  show "all_joins_recorded m (joined_after name v es) (js @ [j])"
    using rec unfolding all_joins_recorded_def e nq tn by auto
  from rec a have "jd_as v \<notin> set (table_names m js)"
    unfolding all_joins_recorded_def by blast
  with dis show "distinct (table_names m (js @ [j]))"
    unfolding tn by simp
  show "map fst (joined_after name v es) = map fst es @ [name]"
    unfolding e by simp
qed

lemma join_each_recorded:
  assumes "join_each E h this xs through d = Inr (d', h')"
    and "wf_heap h" "d < length (queries h)"
    and "q_model (queries h ! d) = Some m" "joined h d = Some es"
    and "all_joins_recorded m es (q_joins (queries h ! d))"
    and "distinct (table_names m (q_joins (queries h ! d)))"
    and "distinct xs" "set xs \<inter> set (map fst es) = {}" "''__proto__'' \<notin> set xs"
  shows "\<exists>es'. joined h' d' = Some es' \<and> map fst es' = map fst es @ xs
           \<and> all_joins_recorded m es' (q_joins (queries h' ! d'))
           \<and> distinct (table_names m (q_joins (queries h' ! d')))"
  using assms
proof (induction xs arbitrary: h through d es)
  case Nil
  then show ?case by simp
next
  case (Cons x xs)
  from Cons.prems(1) obtain rel d1 h1 where
    jr: "joinRelation h d x through rel = Inr (d1, h1)"
    and rest: "join_each E h1 this xs (Some x) d1 = Inr (d', h')"
    by (auto split: sum.splits)
  note step = joinRelation_extends [OF Cons.prems(2,3) jr]
  from step have d1: "d1 < length (queries h1)" by simp
  let ?v = "\<lparr>jd_as = join_alias m es rel, jd_relation = rel\<rparr>"
  let ?j = "[join_arg m es rel, Str ''inner'',
              Cond (JoinCondition rel (join_base h d through rel) (join_alias m es rel))]"
  from joinRelation_result [OF Cons.prems(2,3) jr] Cons.prems(4,5) have
    r: "q_model (queries h1 ! d1) = Some m"
      "q_joins (queries h1 ! d1) = q_joins (queries h ! d) @ [?j]"
      "joined h1 d1 = Some (joined_after x ?v es)"
    by auto
  have a: "jd_as ?v \<notin> set (names_in_query m es)"
    using join_alias_cases [of m es rel] by simp
  have j: "join_name ?j = Some (jd_as ?v)"
    by (simp add: join_name_join_arg)
  have n: "x \<noteq> ''__proto__''" "x \<notin> set (map fst es)"
    using Cons.prems(9,10) by auto
  note R = recorded_step [OF Cons.prems(6,7) a j n]
  have k: "set xs \<inter> set (map fst (joined_after x ?v es)) = {}"
    using Cons.prems(8,9) unfolding R(3) by auto
  from Cons.IH [OF rest step(4) d1 r(1,3) R(1) [folded r(2)] R(2) [folded r(2)] _ k]
    Cons.prems(8,10)
  obtain es' where "joined h' d' = Some es'"
    "map fst es' = map fst (joined_after x ?v es) @ xs"
    "all_joins_recorded m es' (q_joins (queries h' ! d'))"
    "distinct (table_names m (q_joins (queries h' ! d')))"
    by auto
  then show ?case unfolding R(3) by simp
qed




text \<open>
  C4, as the spec states it, fails: \<open>author\<close> and \<open>editor\<close> are two associations to the
  table \<open>users\<close>; joined one after the other they are named \<open>users\<close> and \<open>editor\<close>,
  neither with a suffix.
\<close>

theorem alias_without_suffix_counterexample:
  "\<not> isl (join example_env example_heap 0 [Str ''author''])
   \<and> \<not> isl (join example_env (snd author_once) (fst author_once) [Str ''editor''])
   \<and> tableName (relatedModel author) = tableName (relatedModel editor)
   \<and> join_tables_of author_editor = [Str ''users'', Alias ''users'' ''editor'']
   \<and> aliases_of author_editor = [''users'', ''editor'']
   \<and> CHR ''_'' \<notin> set ''users'' \<and> CHR ''_'' \<notin> set ''editor''"
  by code_simp

text \<open>
  C4, amended. \<^verbatim>\<open>_joinRelation\<close> joins the table under its own name when the query does not
  use that name. Otherwise it joins it under an alias made from the name of the relation:
  the first of the relation name, the relation name with \<open>_j1\<close>, with \<open>_j2\<close> and so on that
  the query does not use, the plain name first. The name is never the table of the model or
  an alias of the map; on a query all of whose joins are recorded in the map it is none of
  the names of the tables of the query. Such a query stays so, with distinct names of
  tables, under a join of an association whose segments are new to the map: two
  associations to the same table get two names and no name is used twice.
\<close>

theorem join_alias_not_in_query:
  assumes wf: "wf_heap h" and q: "q < length (queries h)"
  shows "(\<forall>name through rel d h'.
            joinRelation h q name through rel = Inr (d, h') \<longrightarrow>
            (\<exists>m es es'. q_model (queries h ! q) = Some m \<and> joined h q = Some es
               \<and> joined h' d = Some es'
               \<and> join_name (last (q_joins (queries h' ! d))) = Some (join_alias m es rel)
               \<and> (name \<noteq> ''__proto__'' \<longrightarrow>
                    map_of es' name = Some \<lparr>jd_as = join_alias m es rel, jd_relation = rel\<rparr>)
               \<and> join_alias m es rel \<notin> set (names_in_query m es)
               \<and> (all_joins_recorded m es (q_joins (queries h ! q)) \<longrightarrow>
                    join_alias m es rel \<notin> set (table_names m (q_joins (queries h ! q))))
               \<and> (tableName (relatedModel rel) \<notin> set (names_in_query m es) \<longrightarrow>
                    join_alias m es rel = tableName (relatedModel rel)
                    \<and> join_arg m es rel = Str (tableName (relatedModel rel)))
               \<and> (tableName (relatedModel rel) \<in> set (names_in_query m es) \<longrightarrow>
                    join_arg m es rel = Alias (tableName (relatedModel rel)) (join_alias m es rel)
                    \<and> (join_alias m es rel = rel_name rel
                       \<or> rel_name rel \<in> set (names_in_query m es)
                         \<and> (\<exists>k\<ge>1. join_alias m es rel = rel_name rel @ ''_j'' @ string_of_nat k
                                \<and> (\<forall>j. 1 \<le> j \<and> j < k \<longrightarrow>
                                       rel_name rel @ ''_j'' @ string_of_nat j
                                         \<in> set (names_in_query m es)))))))
       \<and> (\<forall>a assocs d h' m es.
            identity (queries h ! q) = ModelQuery
            \<and> associationForEach E a = Inr assocs \<and> join E h q [a] = Inr (d, h')
            \<and> q_model (queries h ! q) = Some m \<and> joined h q = Some es
            \<and> all_joins_recorded m es (q_joins (queries h ! q))
            \<and> distinct (table_names m (q_joins (queries h ! q)))
            \<and> distinct assocs \<and> set assocs \<inter> set (map fst es) = {}
            \<and> ''__proto__'' \<notin> set assocs \<longrightarrow>
            (\<exists>es'. joined h' d = Some es' \<and> map fst es' = map fst es @ assocs
               \<and> all_joins_recorded m es' (q_joins (queries h' ! d))
               \<and> distinct (table_names m (q_joins (queries h' ! d)))))"
proof -
  have A: "\<exists>m es es'. q_model (queries h ! q) = Some m \<and> joined h q = Some es
               \<and> joined h' d = Some es'
               \<and> join_name (last (q_joins (queries h' ! d))) = Some (join_alias m es rel)
               \<and> (name \<noteq> ''__proto__'' \<longrightarrow>
                    map_of es' name = Some \<lparr>jd_as = join_alias m es rel, jd_relation = rel\<rparr>)
               \<and> join_alias m es rel \<notin> set (names_in_query m es)
               \<and> (all_joins_recorded m es (q_joins (queries h ! q)) \<longrightarrow>
                    join_alias m es rel \<notin> set (table_names m (q_joins (queries h ! q))))
               \<and> (tableName (relatedModel rel) \<notin> set (names_in_query m es) \<longrightarrow>
                    join_alias m es rel = tableName (relatedModel rel)
                    \<and> join_arg m es rel = Str (tableName (relatedModel rel)))
               \<and> (tableName (relatedModel rel) \<in> set (names_in_query m es) \<longrightarrow>
                    join_arg m es rel = Alias (tableName (relatedModel rel)) (join_alias m es rel)
                    \<and> (join_alias m es rel = rel_name rel
                       \<or> rel_name rel \<in> set (names_in_query m es)
                         \<and> (\<exists>k\<ge>1. join_alias m es rel = rel_name rel @ ''_j'' @ string_of_nat k
                                \<and> (\<forall>j. 1 \<le> j \<and> j < k \<longrightarrow>
                                       rel_name rel @ ''_j'' @ string_of_nat j
                                         \<in> set (names_in_query m es)))))"
    if jr: "joinRelation h q name through rel = Inr (d, h')" for name through rel d h'
  proof -
    let ?v = "\<lambda>m es. \<lparr>jd_as = join_alias m es rel, jd_relation = rel\<rparr>"
    from joinRelation_result [OF wf q jr] obtain m es where
      r: "q_model (queries h ! q) = Some m" "joined h q = Some es"
        "q_joins (queries h' ! d) = q_joins (queries h ! q) @
            [[join_arg m es rel, Str ''inner'',
              Cond (JoinCondition rel (join_base h q through rel) (join_alias m es rel))]]"
        "joined h' d = Some (joined_after name (?v m es) es)"
      by blast
    have 1: "join_name (last (q_joins (queries h' ! d))) = Some (join_alias m es rel)"
      unfolding r(3) by (simp add: join_name_join_arg)
    have 2: "map_of (joined_after name (?v m es) es) name = Some (?v m es)"
      if "name \<noteq> ''__proto__''"
      using that by (simp add: joined_after_def update_conv')
    note c = join_alias_cases [of m es rel]
    have 3: "join_alias m es rel \<notin> set (table_names m (q_joins (queries h ! q)))"
      if "all_joins_recorded m es (q_joins (queries h ! q))"
      using that c unfolding all_joins_recorded_def by blast
    have 4: "join_arg m es rel = Str (tableName (relatedModel rel))"
      if "tableName (relatedModel rel) \<notin> set (names_in_query m es)"
      using that by (simp add: join_arg_def tableInQuery_of_names)
    have 5: "join_arg m es rel = Alias (tableName (relatedModel rel)) (join_alias m es rel)"
      if "tableName (relatedModel rel) \<in> set (names_in_query m es)"
      using that by (simp add: join_arg_def tableInQuery_of_names)
    from r(1,2,4) 1 2 3 4 5 c show ?thesis by blast
  qed
  have B: "\<exists>es'. joined h' d = Some es' \<and> map fst es' = map fst es @ assocs
               \<and> all_joins_recorded m es' (q_joins (queries h' ! d))
               \<and> distinct (table_names m (q_joins (queries h' ! d)))"
    if B: "identity (queries h ! q) = ModelQuery
            \<and> associationForEach E a = Inr assocs \<and> join E h q [a] = Inr (d, h')
            \<and> q_model (queries h ! q) = Some m \<and> joined h q = Some es
            \<and> all_joins_recorded m es (q_joins (queries h ! q))
            \<and> distinct (table_names m (q_joins (queries h ! q)))
            \<and> distinct assocs \<and> set assocs \<inter> set (map fst es) = {}
            \<and> ''__proto__'' \<notin> set assocs"
    for a assocs d h' m es
  proof -
    from B have cls: "identity (queries h ! q) = ModelQuery" by simp
    from B have ja: "joinAssociation E h q a = Inr (d, h')" by (simp add: join_def)
    obtain d0 h0 where du: "dup h q = (d0, h0)" by (cases "dup h q")
    with ja B have je: "join_each E h0 q assocs None d0 = Inr (d, h')"
      by (auto simp: joinAssociation_def)
    note D = dup_extends [OF q du] dup_wf [OF wf q du]
    from D have d0: "d0 < length (queries h0)" by simp
    note M = dup_ModelQuery [OF q cls du]
    from B have P: "q_model (queries h0 ! d0) = Some m" "joined h0 d0 = Some es"
      "all_joins_recorded m es (q_joins (queries h0 ! d0))"
      "distinct (table_names m (q_joins (queries h0 ! d0)))"
      "distinct assocs" "set assocs \<inter> set (map fst es) = {}" "''__proto__'' \<notin> set assocs"
      unfolding M by simp_all
    from join_each_recorded [OF je D(4) d0 P] show ?thesis .
  qed
  show ?thesis
    by (rule conjI; intro allI impI; (rule A | rule B); assumption)
qed

theorem join_alias_not_in_query_witness:
  "join example_env (snd author_once) (fst author_once) [Str ''editor'']
     = Inr (fst author_editor, snd author_editor)
   \<and> all_joins_recorded Article (the (joined (snd author_once) (fst author_once)))
        (q_joins (queries (snd author_once) ! fst author_once))
   \<and> (\<exists>es'. joined (snd author_editor) (fst author_editor) = Some es'
        \<and> map fst es' = [''author'', ''editor'']
        \<and> all_joins_recorded Article es' (q_joins (queries (snd author_editor) ! fst author_editor))
        \<and> distinct (table_names Article (q_joins (queries (snd author_editor) ! fst author_editor))))
   \<and> table_names Article (q_joins (queries (snd author_editor) ! fst author_editor))
       = [''articles'', ''users'', ''editor'']
   \<and> joinRelation (snd author_once) (fst author_once) ''editor'' None editor
       = Inr (fst editor_joined, snd editor_joined)
   \<and> join_name (last (q_joins (queries (snd editor_joined) ! fst editor_joined))) = Some ''editor''"
proof -
  have wf: "wf_heap (snd author_once)" by code_simp
  have q: "fst author_once < length (queries (snd author_once))" by code_simp
  have "\<not> isl (join example_env (snd author_once) (fst author_once) [Str ''editor''])"
    "\<not> isl (joinRelation (snd author_once) (fst author_once) ''editor'' None editor)"
    by code_simp+
  then have j: "join example_env (snd author_once) (fst author_once) [Str ''editor'']
     = Inr (fst author_editor, snd author_editor)"
    and jr: "joinRelation (snd author_once) (fst author_once) ''editor'' None editor
       = Inr (fst editor_joined, snd editor_joined)"
    by (simp_all add: author_editor_def editor_joined_def)
  have p: "identity (queries (snd author_once) ! fst author_once) = ModelQuery"
    "associationForEach example_env (Str ''editor'') = Inr [''editor'']"
    "q_model (queries (snd author_once) ! fst author_once) = Some Article"
    "joined (snd author_once) (fst author_once)
       = Some [(''author'', \<lparr>jd_as = ''users'', jd_relation = author\<rparr>)]"
    "all_joins_recorded Article [(''author'', \<lparr>jd_as = ''users'', jd_relation = author\<rparr>)]
        (q_joins (queries (snd author_once) ! fst author_once))"
    "distinct (table_names Article (q_joins (queries (snd author_once) ! fst author_once)))"
    by code_simp+
  have c: "table_names Article (q_joins (queries (snd author_editor) ! fst author_editor))
       = [''articles'', ''users'', ''editor'']"
    "join_alias Article [(''author'', \<lparr>jd_as = ''users'', jd_relation = author\<rparr>)] editor = ''editor''"
    by code_simp+
  note T = join_alias_not_in_query [OF wf q, of example_env]
  from T j p have B: "\<exists>es'. joined (snd author_editor) (fst author_editor) = Some es'
        \<and> map fst es' = map fst [(''author'', \<lparr>jd_as = ''users'', jd_relation = author\<rparr>)] @ [''editor'']
        \<and> all_joins_recorded Article es' (q_joins (queries (snd author_editor) ! fst author_editor))
        \<and> distinct (table_names Article (q_joins (queries (snd author_editor) ! fst author_editor)))"
    by (intro T [THEN conjunct2, rule_format, of "Str ''editor''"]) simp
  from T [THEN conjunct1, rule_format, OF jr] p(3,4) have A: "join_name (last (q_joins (queries (snd editor_joined) ! fst editor_joined)))
      = Some (join_alias Article [(''author'', \<lparr>jd_as = ''users'', jd_relation = author\<rparr>)] editor)"
    by auto
  from j jr p B A c show ?thesis by simp
qed

end
